theory Spec2Isabelle
  imports Main
begin

text \<open>
  The package \<^verbatim>\<open>multipartreader\<close> strings readers together into one multipart body that
  is read lazily. The sources hold several revisions of its one file. The model follows
  the first revision in \<^verbatim>\<open>src/unnamed/part_000\<close> (the struct with \<^verbatim>\<open>writer\<close> and \<^verbatim>\<open>length\<close>;
  \<^verbatim>\<open>New\<close>, \<^verbatim>\<open>SetBoundary\<close>, \<^verbatim>\<open>AddReader\<close>, \<^verbatim>\<open>AddFormReader\<close>, \<^verbatim>\<open>WriteFile\<close>, \<^verbatim>\<open>SetupRequest\<close>,
  \<^verbatim>\<open>Read\<close>, \<^verbatim>\<open>Count\<close>, \<^verbatim>\<open>Boundary\<close>, \<^verbatim>\<open>ContentType\<close>, \<^verbatim>\<open>GetMultiReader\<close>) and adds \<^verbatim>\<open>New\<close> and
  \<^verbatim>\<open>AddFile\<close> of the second revision of that listing, which work on the same struct.
  \<^verbatim>\<open>WriteFields\<close>, \<^verbatim>\<open>AddFields\<close>, \<^verbatim>\<open>AddValuesReader\<close> and \<^verbatim>\<open>Close\<close> write through the
  \<^verbatim>\<open>multipart.Writer\<close>: in the first revision their bytes go into the body buffer, the
  first reader of the slice, and start a part on the writer, while none of the fields
  \<^verbatim>\<open>readers\<close>, \<^verbatim>\<open>length\<close>, \<^verbatim>\<open>multiReader\<close> and \<^verbatim>\<open>count\<close> is assigned, so that no length counts
  these bytes. They are not modelled: the theorems on the bytes of the stream and on
  \<^verbatim>\<open>ContentLength\<close> speak of assemblers on which none of them was called, where the body
  buffer is empty. What the standard library does
  (\<^verbatim>\<open>io.MultiReader\<close>, the readers of \<^verbatim>\<open>bytes\<close>, \<^verbatim>\<open>strings\<close> and \<^verbatim>\<open>os\<close>, \<^verbatim>\<open>multipart.Writer\<close>) is
  modelled as far as the package uses it.
\<close>

section \<open>Bytes, errors and Go's 64-bit integers\<close>

text \<open>
  A Go \<^verbatim>\<open>string\<close> or \<^verbatim>\<open>[]byte\<close> is a list of bytes; HOL's \<^typ>\<open>char\<close> is a byte, so
  \<^typ>\<open>string\<close> models both. Every error value and every run-time panic the modelled
  code can produce is a constructor of \<open>error\<close>.
\<close>

datatype error =
    EOF \<comment> \<open>\<^verbatim>\<open>io.EOF\<close>\<close>
  | ErrClosed string \<comment> \<open>\<^verbatim>\<open>read NAME: file already closed\<close> (and \<^verbatim>\<open>stat\<close> likewise)\<close>
  | ErrOpen string \<comment> \<open>\<^verbatim>\<open>os.Open\<close> failed for this path\<close>
  | ErrSetBoundaryAfterWrite \<comment> \<open>\<^verbatim>\<open>mime: SetBoundary called after write\<close>\<close>
  | ErrInvalidBoundaryLength \<comment> \<open>\<^verbatim>\<open>mime: invalid boundary length\<close>\<close>
  | ErrInvalidBoundaryCharacter \<comment> \<open>\<^verbatim>\<open>mime: invalid boundary character\<close>\<close>
  | ErrInvalid \<comment> \<open>\<^verbatim>\<open>os.ErrInvalid\<close>: a method called on a nil \<^verbatim>\<open>*os.File\<close>\<close>
  | PanicSliceBounds \<comment> \<open>run-time panic: slice bounds out of range\<close>
  | PanicNilMap \<comment> \<open>run-time panic: assignment to entry in nil map\<close>
  | PanicNilDereference \<comment> \<open>run-time panic: a reader that is no object\<close>

definition CRLF :: string where
  "CRLF = [CHR 0x0D, CHR 0x0A]"

definition DQUOTE :: string where
  "DQUOTE = [CHR 0x22]"

text \<open>\<^verbatim>\<open>int64\<close> arithmetic wraps around in two's complement.\<close>

definition int64 :: "int \<Rightarrow> int" where
  "int64 x = signed_take_bit 63 x"

section \<open>Readers and the store they live in\<close>

text \<open>
  The \<^verbatim>\<open>io.Reader\<close> values the package handles are objects with state, shared by
  reference: the slice \<^verbatim>\<open>readers\<close>, the \<^verbatim>\<open>io.MultiReader\<close> built from it, the
  \<^verbatim>\<open>multipart.Writer\<close> and the caller all point to the same objects. A reader is
  therefore an address into a store. Three kinds of object occur:
  \<^item> \<open>BytesBuffer s\<close>: a \<^verbatim>\<open>bytes.Buffer\<close> whose unread part is \<open>s\<close>;
  \<^item> \<open>BytesReader s\<close>: a \<^verbatim>\<open>bytes.Reader\<close> or \<^verbatim>\<open>strings.Reader\<close> whose unread part is \<open>s\<close>;
  \<^item> \<open>OsFile name content pos closed\<close>: an \<^verbatim>\<open>*os.File\<close> opened for reading under
    \<open>name\<close>, at offset \<open>pos\<close> of \<open>content\<close>, with \<open>closed\<close> set once \<^verbatim>\<open>Close\<close> ran.
\<close>

type_synonym addr = nat

datatype reader =
    BytesBuffer string
  | BytesReader string
  | OsFile string string nat bool

text \<open>
  One call \<^verbatim>\<open>r.Read(p)\<close> with \<^verbatim>\<open>len(p) = k\<close>: the bytes copied into \<open>p\<close>, the error
  (if any) and the object afterwards.
  \<^item> \<^verbatim>\<open>bytes.Buffer.Read\<close>: an empty buffer gives \<^verbatim>\<open>(0, nil)\<close> when \<open>k = 0\<close> and
    \<^verbatim>\<open>(0, io.EOF)\<close> otherwise; else it copies.
  \<^item> \<^verbatim>\<open>bytes.Reader.Read\<close>, \<^verbatim>\<open>strings.Reader.Read\<close>: at the end \<^verbatim>\<open>(0, io.EOF)\<close>; else
    it copies.
  \<^item> \<^verbatim>\<open>os.File.Read\<close>: a closed file gives an error; \<open>k = 0\<close> gives \<^verbatim>\<open>(0, nil)\<close>; no byte
    left gives \<^verbatim>\<open>(0, io.EOF)\<close>; else it copies (as many bytes as fit).
\<close>

fun reader_Read :: "nat \<Rightarrow> reader \<Rightarrow> (string \<times> error option) \<times> reader" where
  "reader_Read k (BytesBuffer s) =
     (if s = [] then (if k = 0 then (([], None), BytesBuffer [])
                      else (([], Some EOF), BytesBuffer []))
      else ((take k s, None), BytesBuffer (drop k s)))"
| "reader_Read k (BytesReader s) =
     (if s = [] then (([], Some EOF), BytesReader [])
      else ((take k s, None), BytesReader (drop k s)))"
| "reader_Read k (OsFile name content pos closed) =
     (if closed then (([], Some (ErrClosed name)), OsFile name content pos closed)
      else if k = 0 then (([], None), OsFile name content pos closed)
      else if drop pos content = [] then (([], Some EOF), OsFile name content pos closed)
      else ((take k (drop pos content), None),
            OsFile name content (pos + length (take k (drop pos content))) closed))"

text \<open>
  The world outside the \<^verbatim>\<open>MultipartReader\<close>: the store of reader objects with its
  allocation pointer, and the file system (path to file content) that \<^verbatim>\<open>os.Open\<close> reads.
\<close>

record world =
  heap :: "addr \<Rightarrow> reader option"
  nxt :: addr
  files :: "string \<Rightarrow> string option"

definition alloc :: "reader \<Rightarrow> world \<Rightarrow> addr \<times> world" where
  "alloc r w = (nxt w, w\<lparr>heap := (heap w)(nxt w \<mapsto> r), nxt := Suc (nxt w)\<rparr>)"

text \<open>\<^verbatim>\<open>os.Open(filename)\<close>: an error when the path does not exist, else a new handle.\<close>

definition os_Open :: "string \<Rightarrow> world \<Rightarrow> error + (addr \<times> world)" where
  "os_Open filename w =
     (case files w filename of
        None \<Rightarrow> Inl (ErrOpen filename)
      | Some content \<Rightarrow> Inr (alloc (OsFile filename content 0 False) w))"

text \<open>\<^verbatim>\<open>f.Close()\<close> on a file handle (its error result is dropped by \<^verbatim>\<open>defer\<close>).\<close>

definition os_Close :: "addr \<Rightarrow> world \<Rightarrow> world" where
  "os_Close f w =
     (case heap w f of
        Some (OsFile name content pos closed) \<Rightarrow>
          w\<lparr>heap := (heap w)(f \<mapsto> OsFile name content pos True)\<rparr>
      | _ \<Rightarrow> w)"

text \<open>
  \<^verbatim>\<open>os.basename\<close>, which gives \<^verbatim>\<open>FileInfo.Name()\<close>: trailing slashes are removed (the
  first byte is kept), then the directory part up to the last slash.
\<close>

fun strip_slashes_rev :: "string \<Rightarrow> string" where
  "strip_slashes_rev (c # c' # cs) =
     (if c = CHR ''/'' then strip_slashes_rev (c' # cs) else c # c' # cs)"
| "strip_slashes_rev cs = cs"

definition basename :: "string \<Rightarrow> string" where
  "basename name =
     (case strip_slashes_rev (rev name) of
        [] \<Rightarrow> []
      | c # cs \<Rightarrow> rev (c # takeWhile (\<lambda>x. x \<noteq> CHR ''/'') cs))"

text \<open>
  \<^verbatim>\<open>f.Stat()\<close> on a handle: the base name and the size of the whole file (not of what
  is left to read); an error once the handle is closed, and for an address that holds no
  file (a nil handle).
\<close>

definition file_Stat :: "addr \<Rightarrow> world \<Rightarrow> error + (string \<times> int)" where
  "file_Stat f w =
     (case heap w f of
        Some (OsFile name content pos closed) \<Rightarrow>
          if closed then Inl (ErrClosed name)
          else Inr (basename name, int (length content))
      | _ \<Rightarrow> Inl ErrInvalid)"

text \<open>\<^verbatim>\<open>f.Name()\<close> on a handle: the name as given to \<^verbatim>\<open>os.Open\<close>.\<close>

definition file_Name :: "addr \<Rightarrow> world \<Rightarrow> string" where
  "file_Name f w =
     (case heap w f of Some (OsFile name content pos closed) \<Rightarrow> name | _ \<Rightarrow> [])"

section \<open>io.MultiReader\<close>

text \<open>
  \<^verbatim>\<open>io.MultiReader(readers...)\<close> copies the slice it is given; its state is the list
  of readers not yet exhausted. \<^verbatim>\<open>Read\<close> is the loop of the standard library:
  \<^verbatim>\<open>
  for len(mr.readers) > 0 {
      n, err = mr.readers[0].Read(p)
      if err == EOF { mr.readers = mr.readers[1:] }
      if n > 0 || err != EOF {
          if err == EOF && len(mr.readers) > 0 { err = nil }
          return
      }
  }
  return 0, EOF
  \<close>
  (the flattening of a nested multi-reader is left out: no reader of the model is one).
  An address without an object stands for a nil reader, whose \<^verbatim>\<open>Read\<close> panics.
\<close>

fun multi_Read :: "nat \<Rightarrow> (addr \<Rightarrow> reader option) \<Rightarrow> addr list
    \<Rightarrow> (string \<times> error option) \<times> (addr \<Rightarrow> reader option) \<times> addr list" where
  "multi_Read k h [] = (([], Some EOF), h, [])"
| "multi_Read k h (a # rs) =
     (case h a of
        None \<Rightarrow> (([], Some PanicNilDereference), h, a # rs)
      | Some r \<Rightarrow>
          (case reader_Read k r of
             ((d, e), r') \<Rightarrow>
               if e = Some EOF then
                 (if d \<noteq> [] then ((d, if rs \<noteq> [] then None else Some EOF), h(a \<mapsto> r'), rs)
                  else multi_Read k (h(a \<mapsto> r')) rs)
               else ((d, e), h(a \<mapsto> r'), a # rs)))"

section \<open>mime/multipart.Writer\<close>

text \<open>
  Of the standard library's \<^verbatim>\<open>multipart.Writer\<close> the package uses the boundary, the
  buffer it writes to and whether a part has been started (\<^verbatim>\<open>lastpart != nil\<close>).
\<close>

record Writer =
  target :: addr
  wboundary :: string
  lastpart :: bool

text \<open>
  \<^verbatim>\<open>randomBoundary\<close> prints 30 random bytes with \<^verbatim>\<open>%x\<close>: two lower-case hexadecimal
  digits for each. The random bytes are an input of the model.
\<close>

definition hexdigit :: "nat \<Rightarrow> char" where
  "hexdigit n = ''0123456789abcdef'' ! n"

definition hex_byte :: "char \<Rightarrow> string" where
  "hex_byte c = [hexdigit (of_char c div 16), hexdigit (of_char c mod 16)]"

definition randomBoundary :: "string \<Rightarrow> string" where
  "randomBoundary rnd = concat (map hex_byte rnd)"

definition NewWriter :: "addr \<Rightarrow> string \<Rightarrow> Writer" where
  "NewWriter buf rnd = \<lparr>target = buf, wboundary = randomBoundary rnd, lastpart = False\<rparr>"

text \<open>
  \<^verbatim>\<open>FormDataContentType\<close> quotes the boundary when it holds one of
  \<^verbatim>\<open>()<>@,;:\"/[]?= \<close> (the tspecials of RFC 2045, or a space).
\<close>

definition tspecials :: string where
  "tspecials = ''()<>@,;:'' @ [CHR 0x5C, CHR 0x22] @ ''/[]?= ''"

definition FormDataContentType :: "Writer \<Rightarrow> string" where
  "FormDataContentType w =
     (let b = wboundary w;
          b' = (if list_ex (\<lambda>c. c \<in> set tspecials) b then DQUOTE @ b @ DQUOTE else b)
      in ''multipart/form-data; boundary='' @ b')"

text \<open>
  \<^verbatim>\<open>Writer.SetBoundary\<close>: refused after a part was started; the length is 1 to 70; each
  character is a letter, a digit, one of \<^verbatim>\<open>'()+_,-./:=?\<close>, or a space that is not the
  last character. (The standard library's loop ranges over runes; a byte outside ASCII
  belongs to a rune that is not allowed, so the test byte by byte refuses the same
  tokens.)
\<close>

definition boundary_char_ok :: "bool \<Rightarrow> char \<Rightarrow> bool" where
  "boundary_char_ok is_end b =
     (let n = (of_char b :: nat) in
      if (65 \<le> n \<and> n \<le> 90) \<or> (97 \<le> n \<and> n \<le> 122) \<or> (48 \<le> n \<and> n \<le> 57) then True
      else if b \<in> set (CHR 0x27 # ''()+_,-./:=?'') then True
      else if b = CHR '' '' then \<not> is_end
      else False)"

fun boundary_chars_ok :: "string \<Rightarrow> bool" where
  "boundary_chars_ok [] = True"
| "boundary_chars_ok (b # bs) = (boundary_char_ok (bs = []) b \<and> boundary_chars_ok bs)"

definition Writer_SetBoundary :: "string \<Rightarrow> Writer \<Rightarrow> error option \<times> Writer" where
  "Writer_SetBoundary b w =
     (if lastpart w then (Some ErrSetBoundaryAfterWrite, w)
      else if length b < 1 \<or> length b > 70 then (Some ErrInvalidBoundaryLength, w)
      else if \<not> boundary_chars_ok b then (Some ErrInvalidBoundaryCharacter, w)
      else (None, w\<lparr>wboundary := b\<rparr>))"

section \<open>The MultipartReader\<close>

text \<open>
  The struct of the package. \<open>writer\<close> is a pointer (\<open>None\<close> is nil); \<open>readers\<close> is the
  slice of reader addresses; \<open>length_mr\<close> is the field \<^verbatim>\<open>length\<close> and \<open>count\<close> the
  counter, both \<^verbatim>\<open>int64\<close>; \<open>multiReader\<close> is \<open>None\<close> until \<^verbatim>\<open>GetMultiReader\<close> builds
  the \<^verbatim>\<open>io.MultiReader\<close>, and then holds the readers that object has not exhausted.
\<close>

record MultipartReader =
  contentType :: string
  boundary :: string
  writer :: "Writer option"
  readers :: "addr list"
  length_mr :: int
  multiReader :: "addr list option"
  count :: int

text \<open>The zero value \<^verbatim>\<open>MultipartReader{}\<close>, which \<^verbatim>\<open>New\<close> did not build.\<close>

definition zero_MultipartReader :: MultipartReader where
  "zero_MultipartReader =
     \<lparr>contentType = [], boundary = [], writer = None, readers = [], length_mr = 0,
      multiReader = None, count = 0\<rparr>"

definition formClose :: "string \<Rightarrow> string" where
  "formClose b = CRLF @ ''--'' @ b @ ''--'' @ CRLF"

text \<open>
  \<^verbatim>\<open>New\<close> (first revision): the body buffer the writer writes to, the writer with its
  random boundary, the reader of the closing line, and the struct. \<open>rnd\<close> are the random
  bytes \<^verbatim>\<open>multipart.NewWriter\<close> draws.
\<close>

definition New :: "string \<Rightarrow> world \<Rightarrow> MultipartReader \<times> world" where
  "New rnd w =
     (case alloc (BytesBuffer []) w of
        (bodyReader, w1) \<Rightarrow>
          let wr = NewWriter bodyReader rnd;
              fc = formClose (wboundary wr)
          in (case alloc (BytesReader fc) w1 of
                (closeReader, w2) \<Rightarrow>
                  (\<lparr>contentType = FormDataContentType wr,
                    boundary = wboundary wr,
                    writer = Some wr,
                    readers = [bodyReader, closeReader],
                    length_mr = int64 (int (0 + length fc)),
                    multiReader = None,
                    count = 0\<rparr>, w2)))"

text \<open>
  \<^verbatim>\<open>New\<close> of the second revision: the body is a \<^verbatim>\<open>strings.Reader\<close> over the (empty)
  text the buffer held when \<^verbatim>\<open>New\<close> ran, so the writer's buffer is a separate object.
\<close>

definition New_v2 :: "string \<Rightarrow> world \<Rightarrow> MultipartReader \<times> world" where
  "New_v2 rnd w =
     (case alloc (BytesBuffer []) w of
        (buf, w1) \<Rightarrow>
          let wr = NewWriter buf rnd;
              formBody = [];
              fc = formClose (wboundary wr)
          in (case alloc (BytesReader formBody) w1 of
                (bodyReader, w2) \<Rightarrow>
                  (case alloc (BytesReader fc) w2 of
                     (closeReader, w3) \<Rightarrow>
                       (\<lparr>contentType = FormDataContentType wr,
                         boundary = wboundary wr,
                         writer = Some wr,
                         readers = [bodyReader, closeReader],
                         length_mr = int64 (int (length formBody + length fc)),
                         multiReader = None,
                         count = 0\<rparr>, w3))))"

text \<open>\<^verbatim>\<open>SetBoundary\<close> hands the token to the writer and returns its error.\<close>

definition SetBoundary :: "string \<Rightarrow> MultipartReader \<Rightarrow> error option \<times> MultipartReader" where
  "SetBoundary b m =
     (case writer m of
        None \<Rightarrow> (Some PanicNilDereference, m)
      | Some wr \<Rightarrow>
          (case Writer_SetBoundary b wr of (err, wr') \<Rightarrow> (err, m\<lparr>writer := Some wr'\<rparr>)))"

text \<open>
  \<^verbatim>\<open>AddReader\<close>: \<^verbatim>\<open>i := len(mr.readers)\<close>, then
  \<^verbatim>\<open>mr.readers = append(mr.readers[:i-1], r, mr.readers[i-1])\<close> and
  \<^verbatim>\<open>mr.length = mr.length + length\<close>. It returns nothing; with an empty slice the slice
  expression \<^verbatim>\<open>mr.readers[:-1]\<close> panics before anything is assigned.
\<close>

definition AddReader :: "addr \<Rightarrow> int \<Rightarrow> MultipartReader \<Rightarrow> error option \<times> MultipartReader" where
  "AddReader r len m =
     (let i = length (readers m) in
      if i = 0 then (Some PanicSliceBounds, m)
      else (None, m\<lparr>readers := take (i - 1) (readers m) @ [r, readers m ! (i - 1)],
                     length_mr := int64 (length_mr m + len)\<rparr>))"

text \<open>The header line that \<^verbatim>\<open>fmt.Sprintf\<close> builds in front of a form part.\<close>

definition form_header :: "string \<Rightarrow> string \<Rightarrow> string \<Rightarrow> string" where
  "form_header b name filename =
     ''--'' @ b @ CRLF @ ''Content-Disposition: form-data; name='' @ DQUOTE @ name @ DQUOTE
       @ ''; filename='' @ DQUOTE @ filename @ DQUOTE @ CRLF @ CRLF"

text \<open>
  The two calls of \<^verbatim>\<open>AddReader\<close> that \<^verbatim>\<open>AddFormReader\<close>, \<^verbatim>\<open>WriteFile\<close> and \<^verbatim>\<open>AddFile\<close>
  share: a new \<^verbatim>\<open>strings.Reader\<close> over the header with its length, then the source with
  its declared length. A panic of the first call ends the function.
\<close>

definition add_form :: "string \<Rightarrow> addr \<Rightarrow> int \<Rightarrow> MultipartReader \<times> world
    \<Rightarrow> error option \<times> (MultipartReader \<times> world)" where
  "add_form form r len s =
     (case s of (m, w) \<Rightarrow>
        (case alloc (BytesReader form) w of
           (hr, w1) \<Rightarrow>
             (case AddReader hr (int64 (int (length form))) m of
                (Some e, m1) \<Rightarrow> (Some e, (m1, w1))
              | (None, m1) \<Rightarrow>
                  (case AddReader r len m1 of (e, m2) \<Rightarrow> (e, (m2, w1))))))"

definition AddFormReader :: "string \<Rightarrow> string \<Rightarrow> int \<Rightarrow> addr \<Rightarrow> MultipartReader \<times> world
    \<Rightarrow> error option \<times> (MultipartReader \<times> world)" where
  "AddFormReader name filename len r s =
     add_form (form_header (boundary (fst s)) name filename) r len s"

text \<open>
  \<^verbatim>\<open>WriteFile\<close> (first revision): \<^verbatim>\<open>os.Open\<close>, \<^verbatim>\<open>defer fs.Close()\<close>, \<^verbatim>\<open>fs.Stat()\<close>, the
  header with the field name \<^verbatim>\<open>file\<close> and \<^verbatim>\<open>fs.Name()\<close>, the two \<^verbatim>\<open>AddReader\<close> calls.
  The deferred \<^verbatim>\<open>Close\<close> runs on every way out of the function once the file is open.
  The parameter \<open>key\<close> is not used by the source.
\<close>

definition WriteFile :: "string \<Rightarrow> string \<Rightarrow> MultipartReader \<times> world
    \<Rightarrow> error option \<times> (MultipartReader \<times> world)" where
  "WriteFile key filename s =
     (case s of (m, w) \<Rightarrow>
        (case os_Open filename w of
           Inl e \<Rightarrow> (Some e, (m, w))
         | Inr (fs, w1) \<Rightarrow>
             (case file_Stat fs w1 of
                Inl e \<Rightarrow> (Some e, (m, os_Close fs w1))
              | Inr (base, sz) \<Rightarrow>
                  (case add_form (form_header (boundary m) ''file'' (file_Name fs w1)) fs
                          sz (m, w1) of
                     (e, (m2, w2)) \<Rightarrow> (e, (m2, os_Close fs w2))))))"

text \<open>
  \<^verbatim>\<open>AddFile\<close> (second revision) takes an open handle: \<^verbatim>\<open>file.Stat()\<close>, the header with
  the base name, the two \<^verbatim>\<open>AddReader\<close> calls. It does not close the handle.
\<close>

definition AddFile :: "addr \<Rightarrow> MultipartReader \<times> world
    \<Rightarrow> error option \<times> (MultipartReader \<times> world)" where
  "AddFile file s =
     (case s of (m, w) \<Rightarrow>
        (case file_Stat file w of
           Inl e \<Rightarrow> (Some e, (m, w))
         | Inr (base, sz) \<Rightarrow>
             add_form (form_header (boundary m) ''file'' base) file sz (m, w)))"

text \<open>
  \<^verbatim>\<open>GetMultiReader\<close> builds the \<^verbatim>\<open>io.MultiReader\<close> over a copy of \<open>readers\<close> on its
  first call and returns the cached one afterwards.
\<close>

definition GetMultiReader :: "MultipartReader \<Rightarrow> MultipartReader" where
  "GetMultiReader m =
     (case multiReader m of
        None \<Rightarrow> m\<lparr>multiReader := Some (readers m)\<rparr>
      | Some rs \<Rightarrow> m)"

text \<open>
  \<^verbatim>\<open>Read\<close> with a buffer of \<open>k\<close> bytes: one \<^verbatim>\<open>Read\<close> of the multi-reader, then
  \<^verbatim>\<open>atomic.AddInt64(&mpr.count, int64(n))\<close>.
\<close>

definition Read :: "nat \<Rightarrow> MultipartReader \<times> world
    \<Rightarrow> (string \<times> error option) \<times> (MultipartReader \<times> world)" where
  "Read k s =
     (case s of (m, w) \<Rightarrow>
        (let m1 = GetMultiReader m in
         case multiReader m1 of
           None \<Rightarrow> (([], Some PanicNilDereference), (m1, w))
         | Some rs \<Rightarrow>
             (case multi_Read k (heap w) rs of
                ((d, e), h', rs') \<Rightarrow>
                  ((d, e),
                   (m1\<lparr>multiReader := Some rs',
                       count := int64 (count m1 + int64 (int (length d)))\<rparr>,
                    w\<lparr>heap := h'\<rparr>)))))"

definition Count :: "MultipartReader \<Rightarrow> int" where
  "Count m = count m"

definition Boundary :: "MultipartReader \<Rightarrow> string" where
  "Boundary m = boundary m"

definition ContentType :: "MultipartReader \<Rightarrow> string" where
  "ContentType m = contentType m"

text \<open>
  The part of \<^verbatim>\<open>http.Request\<close> that \<^verbatim>\<open>SetupRequest\<close> assigns. \<open>Header\<close> is a Go map:
  \<open>None\<close> is the nil map, otherwise the entries in the order they were added. The body
  \<^verbatim>\<open>SetupRequest\<close> installs is \<^verbatim>\<open>ioutil.NopCloser\<close> around the cached multi-reader: the
  very object \<^verbatim>\<open>Read\<close> uses.
\<close>

datatype body = NopCloser_multiReader | OtherBody

record Request =
  Body :: "body option"
  Header :: "(string \<times> string) list option"
  ContentLength :: int

text \<open>
  \<^verbatim>\<open>SetupRequest\<close>, statement by statement: \<^verbatim>\<open>req.Body = mr.GetCloseReader()\<close> (which
  builds the multi-reader), \<^verbatim>\<open>req.Header.Add("Content-Type", mr.contentType)\<close>, which
  panics on a nil map, and only then \<^verbatim>\<open>req.ContentLength = mr.length\<close>. The result is the
  panic (if any), the request and the struct as the call leaves them.
\<close>

definition SetupRequest :: "Request \<Rightarrow> MultipartReader
    \<Rightarrow> error option \<times> Request \<times> MultipartReader" where
  "SetupRequest req m =
     (let m1 = GetMultiReader m;
          req1 = req\<lparr>Body := Some NopCloser_multiReader\<rparr>
      in case Header req1 of
           None \<Rightarrow> (Some PanicNilMap, req1, m1)
         | Some h \<Rightarrow>
             (None,
              req1\<lparr>Header := Some (h @ [(''Content-Type'', contentType m1)]),
                   ContentLength := length_mr m1\<rparr>,
              m1))"

text \<open>
  \<^verbatim>\<open>req.Body.Read(p)\<close> as the HTTP transport calls it: the multi-reader's \<^verbatim>\<open>Read\<close>, without
  the counter. Before \<^verbatim>\<open>SetupRequest\<close> there is no such body.
\<close>

definition Body_Read :: "nat \<Rightarrow> MultipartReader \<times> world
    \<Rightarrow> (string \<times> error option) \<times> (MultipartReader \<times> world)" where
  "Body_Read k s =
     (case s of (m, w) \<Rightarrow>
        (case multiReader m of
           None \<Rightarrow> (([], Some PanicNilDereference), (m, w))
         | Some rs \<Rightarrow>
             (case multi_Read k (heap w) rs of
                ((d, e), h', rs') \<Rightarrow>
                  ((d, e), (m\<lparr>multiReader := Some rs'\<rparr>, w\<lparr>heap := h'\<rparr>)))))"

section \<open>Callers\<close>

text \<open>
  A consumer reads with a buffer of \<open>k\<close> bytes until a call returns an error (\<^verbatim>\<open>io.EOF\<close>
  at the regular end) and collects the bytes. With \<open>k = 0\<close> the loop may never end, so it
  runs on fuel: \<open>None\<close> means the fuel ran out. \<open>rd\<close> is \<open>Read\<close> or \<open>Body_Read\<close>.
\<close>

fun drain :: "(nat \<Rightarrow> 's \<Rightarrow> (string \<times> error option) \<times> 's) \<Rightarrow> nat \<Rightarrow> nat \<Rightarrow> 's
    \<Rightarrow> ((string \<times> error) \<times> 's) option" where
  "drain rd 0 k s = None"
| "drain rd (Suc fuel) k s =
     (case rd k s of
        ((d, Some e), s') \<Rightarrow> Some ((d, e), s')
      | ((d, None), s') \<Rightarrow>
          (case drain rd fuel k s' of
             None \<Rightarrow> None
           | Some ((ds, e), s'') \<Rightarrow> Some ((d @ ds, e), s'')))"

text \<open>
  The calls a program can make on a \<^verbatim>\<open>MultipartReader\<close>, and the state each leaves
  (results and errors aside). \<open>run\<close> makes a sequence of calls. \<open>BodyReadC\<close> is a read
  of the request body that \<^verbatim>\<open>SetupRequest\<close> installed. The readers and files a program
  hands to these calls are objects of the world in which \<^verbatim>\<open>New\<close> runs.
\<close>

datatype call =
    SetBoundaryC string
  | AddReaderC addr int
  | AddFormReaderC string string int addr
  | WriteFileC string string
  | AddFileC addr
  | GetMultiReaderC
  | SetupRequestC Request
  | ReadC nat
  | BodyReadC nat

fun exec :: "call \<Rightarrow> MultipartReader \<times> world \<Rightarrow> MultipartReader \<times> world" where
  "exec (SetBoundaryC b) (m, w) = (snd (SetBoundary b m), w)"
| "exec (AddReaderC r len) (m, w) = (snd (AddReader r len m), w)"
| "exec (AddFormReaderC name filename len r) (m, w) = snd (AddFormReader name filename len r (m, w))"
| "exec (WriteFileC key filename) (m, w) = snd (WriteFile key filename (m, w))"
| "exec (AddFileC file) (m, w) = snd (AddFile file (m, w))"
| "exec GetMultiReaderC (m, w) = (GetMultiReader m, w)"
| "exec (SetupRequestC req) (m, w) = (snd (snd (SetupRequest req m)), w)"
| "exec (ReadC k) (m, w) = snd (Read k (m, w))"
| "exec (BodyReadC k) (m, w) = snd (Body_Read k (m, w))"

definition run :: "call list \<Rightarrow> MultipartReader \<times> world \<Rightarrow> MultipartReader \<times> world" where
  "run cs s = foldl (\<lambda>s c. exec c s) s cs"

fun is_Read :: "call \<Rightarrow> bool" where
  "is_Read (ReadC k) = True"
| "is_Read c = False"

section \<open>What a sequence of readers holds\<close>

text \<open>
  The bytes a reader object still has to deliver, whether it can deliver them (a closed
  file cannot), and the concatenation over a list of addresses.
\<close>

fun remaining :: "reader \<Rightarrow> string" where
  "remaining (BytesBuffer s) = s"
| "remaining (BytesReader s) = s"
| "remaining (OsFile name content pos closed) = drop pos content"

fun readable :: "reader \<Rightarrow> bool" where
  "readable (OsFile name content pos closed) = (\<not> closed)"
| "readable r = True"

definition content_at :: "(addr \<Rightarrow> reader option) \<Rightarrow> addr \<Rightarrow> string" where
  "content_at h a = (case h a of None \<Rightarrow> [] | Some r \<Rightarrow> remaining r)"

definition content_of :: "(addr \<Rightarrow> reader option) \<Rightarrow> addr list \<Rightarrow> string" where
  "content_of h rs = concat (map (content_at h) rs)"

definition readable_at :: "(addr \<Rightarrow> reader option) \<Rightarrow> addr \<Rightarrow> bool" where
  "readable_at h a = (case h a of None \<Rightarrow> False | Some r \<Rightarrow> readable r)"

definition good :: "(addr \<Rightarrow> reader option) \<Rightarrow> addr list \<Rightarrow> bool" where
  "good h rs = (distinct rs \<and> list_all (readable_at h) rs)"

text \<open>
  The readers a stream has still to go through (the multi-reader's once it is built, the
  slice before), the bytes they hold, and whether all of them can be read and are
  different objects.
\<close>

definition pending :: "MultipartReader \<Rightarrow> addr list" where
  "pending m = (case multiReader m of None \<Rightarrow> readers m | Some rs \<Rightarrow> rs)"

definition stream_of :: "MultipartReader \<times> world \<Rightarrow> string" where
  "stream_of s = content_of (heap (snd s)) (pending (fst s))"

definition stream_ok :: "MultipartReader \<times> world \<Rightarrow> bool" where
  "stream_ok s = good (heap (snd s)) (pending (fst s))"

text \<open>
  The shape \<^verbatim>\<open>New\<close> gives the slice and \<^verbatim>\<open>AddReader\<close> keeps: a first reader \<open>b\<close>, a last
  reader \<open>c\<close>, the appended readers between them. \<open>literal_at\<close> says that the object
  at an address is a \<^verbatim>\<open>bytes.Reader\<close> over a text of which a prefix may have been read.
\<close>

definition shaped :: "addr \<Rightarrow> addr \<Rightarrow> MultipartReader \<Rightarrow> bool" where
  "shaped b c m = (\<exists>xs. readers m = b # xs @ [c])"

definition literal_at :: "string \<Rightarrow> addr \<Rightarrow> world \<Rightarrow> bool" where
  "literal_at txt c w = (c < nxt w \<and> (\<exists>j. heap w c = Some (BytesReader (drop j txt))))"

text \<open>
  Calls that append a source to a \<^verbatim>\<open>MultipartReader\<close> made in the world \<open>w\<close>: the address
  of the source, what makes the call well-formed (the source exists in \<open>w\<close> and can be
  read; \<^verbatim>\<open>AddFile\<close> wants an open file), the bytes the call is to contribute to the stream
  (for a form part the header, then the source), and the length the call declares.
\<close>

fun source :: "call \<Rightarrow> addr option" where
  "source (AddReaderC r n) = Some r"
| "source (AddFormReaderC name filename n r) = Some r"
| "source (AddFileC f) = Some f"
| "source c = None"

fun append_ok :: "world \<Rightarrow> call \<Rightarrow> bool" where
  "append_ok w (AddReaderC r n) = (r < nxt w \<and> readable_at (heap w) r)"
| "append_ok w (AddFormReaderC name filename n r) = (r < nxt w \<and> readable_at (heap w) r)"
| "append_ok w (AddFileC f) =
     (f < nxt w \<and> (case heap w f of Some (OsFile name content pos closed) \<Rightarrow> \<not> closed
                                   | _ \<Rightarrow> False))"
| "append_ok w c = False"

fun appended :: "string \<Rightarrow> world \<Rightarrow> call \<Rightarrow> string" where
  "appended b w (AddReaderC r n) = content_at (heap w) r"
| "appended b w (AddFormReaderC name filename n r) =
     form_header b name filename @ content_at (heap w) r"
| "appended b w (AddFileC f) =
     form_header b ''file'' (basename (file_Name f w)) @ content_at (heap w) f"
| "appended b w c = []"

fun declared :: "string \<Rightarrow> world \<Rightarrow> call \<Rightarrow> int" where
  "declared b w (AddReaderC r n) = n"
| "declared b w (AddFormReaderC name filename n r) =
     int (length (form_header b name filename)) + n"
| "declared b w (AddFileC f) =
     int (length (form_header b ''file'' (basename (file_Name f w))))
       + (case heap w f of Some (OsFile name content pos closed) \<Rightarrow> int (length content)
                         | _ \<Rightarrow> 0)"
| "declared b w c = 0"

text \<open>
  The state after \<^verbatim>\<open>New\<close> in \<open>w\<close> and the appends \<open>cs\<close>: nothing read yet; the body and
  closing readers of \<^verbatim>\<open>New\<close> first and last; between them distinct readable readers,
  each a source of \<open>cs\<close> or a header allocated since, holding the bytes of \<open>cs\<close>; the
  objects of \<open>w\<close> untouched; the length field the sum of the declared lengths.
\<close>

definition built :: "string \<Rightarrow> world \<Rightarrow> call list \<Rightarrow> MultipartReader \<times> world \<Rightarrow> bool" where
  "built rnd w cs s =
     (multiReader (fst s) = None
      \<and> boundary (fst s) = randomBoundary rnd
      \<and> nxt w + 2 \<le> nxt (snd s)
      \<and> (\<forall>a. a < nxt w \<longrightarrow> heap (snd s) a = heap w a)
      \<and> files (snd s) = files w
      \<and> heap (snd s) (nxt w) = Some (BytesBuffer [])
      \<and> heap (snd s) (Suc (nxt w)) = Some (BytesReader (formClose (randomBoundary rnd)))
      \<and> length_mr (fst s)
          = int64 (int (length (formClose (randomBoundary rnd)))
                   + sum_list (map (declared (randomBoundary rnd) w) cs))
      \<and> (\<exists>xs. readers (fst s) = nxt w # xs @ [Suc (nxt w)]
            \<and> distinct xs
            \<and> (\<forall>a \<in> set xs. (a < nxt w \<and> Some a \<in> set (map source cs))
                             \<or> (nxt w + 2 \<le> a \<and> a < nxt (snd s)))
            \<and> list_all (readable_at (heap (snd s))) xs
            \<and> content_of (heap (snd s)) xs
                = concat (map (appended (randomBoundary rnd) w) cs)))"

text \<open>Whether the length a call declares is the number of bytes its source holds.\<close>

fun declared_right :: "world \<Rightarrow> call \<Rightarrow> bool" where
  "declared_right w (AddReaderC r n) = (n = int (length (content_at (heap w) r)))"
| "declared_right w (AddFormReaderC name filename n r) = (n = int (length (content_at (heap w) r)))"
| "declared_right w (AddFileC f) =
     (case heap w f of Some (OsFile name content pos closed) \<Rightarrow> pos = 0 | _ \<Rightarrow> False)"
| "declared_right w c = False"

text \<open>A small world for the examples: two readers in memory and one file on disk.\<close>

definition example_world :: world where
  "example_world =
     \<lparr>heap = (\<lambda>a. None)(0 \<mapsto> BytesReader ''abc'', 1 \<mapsto> BytesReader ''de''),
      nxt = 2,
      files = (\<lambda>p. None)(''a.txt'' \<mapsto> ''hello'')\<rparr>"

text \<open>The same world after the caller has opened the file: the handle is at address 2.\<close>

definition example_world_open :: world where
  "example_world_open = snd (alloc (OsFile ''a.txt'' ''hello'' 0 False) example_world)"

section \<open>Reading a sequence of readers\<close>

lemma int64_add_left: "int64 (int64 a + b) = int64 (a + b)"
proof -
  have "signed_take_bit 63 (signed_take_bit 63 a + b)
      = signed_take_bit 63 (signed_take_bit 63 (signed_take_bit 63 a) + signed_take_bit 63 b)"
    by (simp only: signed_take_bit_add)
  also have "\<dots> = signed_take_bit 63 (signed_take_bit 63 a + signed_take_bit 63 b)"
    by simp
  also have "\<dots> = signed_take_bit 63 (a + b)"
    by (simp only: signed_take_bit_add)
  finally show ?thesis by (simp only: int64_def)
qed

lemma int64_add_right: "int64 (a + int64 b) = int64 (a + b)"
  using int64_add_left [of b a] by (simp only: add.commute)

lemma int64_id: "- (2 ^ 63) \<le> x \<Longrightarrow> x < 2 ^ 63 \<Longrightarrow> int64 x = x"
  unfolding int64_def by (rule signed_take_bit_int_eq_self)

lemma int64_range: "- (2 ^ 63) \<le> int64 x \<and> int64 x < 2 ^ 63"
  unfolding int64_def
  using signed_take_bit_int_greater_eq_minus_exp [of 63 x] signed_take_bit_int_less_exp [of 63 x]
  by simp

lemma drop_take_advance: "drop (p + length (take k (drop p c))) c = drop k (drop p c)"
proof (cases "k \<le> length c - p")
  case True
  then show ?thesis by (simp add: min_def add.commute)
next
  case False
  then show ?thesis by (simp add: min_def)
qed

lemma reader_Read_readable:
  assumes "0 < k" "readable r" "reader_Read k r = ((d, e), r')"
  shows "readable r' \<and> remaining r = d @ remaining r'
         \<and> (if remaining r = [] then e = Some EOF \<and> d = [] else e = None \<and> d \<noteq> [])"
proof (cases r)
  case (BytesBuffer s)
  with assms show ?thesis by (auto split: if_splits)
next
  case (BytesReader s)
  with assms show ?thesis by (auto split: if_splits)
next
  case (OsFile name content pos closed)
  with assms show ?thesis
    using drop_take_advance [of pos k content] append_take_drop_id [of k "drop pos content"]
    by (auto split: if_splits)
qed

lemma content_at_upd_other: "a \<noteq> b \<Longrightarrow> content_at (h(a \<mapsto> r)) b = content_at h b"
  by (simp add: content_at_def)

lemma content_of_upd_other: "a \<notin> set rs \<Longrightarrow> content_of (h(a \<mapsto> r)) rs = content_of h rs"
  by (induction rs) (auto simp: content_of_def content_at_def)

lemma good_upd_other: "a \<notin> set rs \<Longrightarrow> good (h(a \<mapsto> r)) rs = good h rs"
  by (induction rs) (auto simp: good_def readable_at_def)

lemma good_Cons:
  "good h (a # rs) = (a \<notin> set rs \<and> readable_at h a \<and> good h rs)"
  by (auto simp: good_def)

lemma content_of_Cons: "content_of h (a # rs) = content_at h a @ content_of h rs"
  by (simp add: content_of_def)

lemma multi_Read_good:
  assumes "0 < k" "good h rs" "multi_Read k h rs = ((d, e), h', rs')"
  shows "good h' rs' \<and> content_of h rs = d @ content_of h' rs'
         \<and> ((e = None \<and> d \<noteq> []) \<or> (e = Some EOF \<and> d = [] \<and> rs' = []))"
  using assms
proof (induction rs arbitrary: h)
  case Nil
  then show ?case by (auto simp: content_of_def)
next
  case (Cons a rs)
  from Cons.prems(2) obtain r where r: "h a = Some r" "readable r" "a \<notin> set rs" "good h rs"
    by (auto simp: good_Cons readable_at_def split: option.splits)
  obtain d1 e1 r1 where rr: "reader_Read k r = ((d1, e1), r1)"
    by (metis prod.exhaust)
  note fact = reader_Read_readable [OF Cons.prems(1) r(2) rr]
  show ?case
  proof (cases "remaining r = []")
    case True
    with fact have e1: "e1 = Some EOF" "d1 = []" "remaining r1 = []" "readable r1" by auto
    from Cons.prems(3) r rr e1
    have step: "multi_Read k (h(a \<mapsto> r1)) rs = ((d, e), h', rs')" by simp
    have g: "good (h(a \<mapsto> r1)) rs" using r by (simp add: good_upd_other)
    have c: "content_of (h(a \<mapsto> r1)) rs = content_of h rs"
      using r(3) by (rule content_of_upd_other)
    have ca: "content_at h a = []" using r(1) True by (simp add: content_at_def)
    from Cons.IH [OF Cons.prems(1) g step]
    show ?thesis unfolding content_of_Cons c ca by simp
  next
    case False
    with fact have e1: "e1 = None" "d1 \<noteq> []" "remaining r = d1 @ remaining r1" "readable r1" by auto
    from Cons.prems(3) r rr e1
    have res: "d = d1" "e = None" "h' = h(a \<mapsto> r1)" "rs' = a # rs" by auto
    have g': "good (h(a \<mapsto> r1)) (a # rs)"
      using r e1 by (simp add: good_Cons good_upd_other readable_at_def)
    have c': "content_of (h(a \<mapsto> r1)) (a # rs) = remaining r1 @ content_of h rs"
      using r by (simp add: content_of_Cons content_of_upd_other content_at_def)
    have c0: "content_of h (a # rs) = remaining r @ content_of h rs"
      using r by (simp add: content_of_Cons content_at_def)
    have "good (h(a \<mapsto> r1)) (a # rs) \<and> content_of h (a # rs) = d1 @ content_of (h(a \<mapsto> r1)) (a # rs)
         \<and> d1 \<noteq> []"
      using g' c' c0 e1 by simp
    then show ?thesis using res by blast
  qed
qed

lemma drain_invariant:
  assumes step: "\<And>s d e s'. I s \<Longrightarrow> rd k s = ((d, e), s') \<Longrightarrow>
            I s' \<and> C s = d @ C s' \<and> ((e = None \<and> d \<noteq> []) \<or> (e = Some EOF \<and> d = [] \<and> C s' = []))"
    and "I s" and "length (C s) < fuel"
  shows "\<exists>s'. drain rd fuel k s = Some ((C s, EOF), s') \<and> I s' \<and> C s' = []"
  using assms(2,3)
proof (induction fuel arbitrary: s)
  case 0
  then show ?case by simp
next
  case (Suc fuel)
  obtain d e s1 where r: "rd k s = ((d, e), s1)" by (metis prod.exhaust)
  from step [OF Suc.prems(1) r]
  have f: "I s1" "C s = d @ C s1" "(e = None \<and> d \<noteq> []) \<or> (e = Some EOF \<and> d = [] \<and> C s1 = [])"
    by auto
  show ?case
  proof (cases e)
    case None
    with f have "d \<noteq> []" by auto
    with f(2) Suc.prems(2) have "length (C s1) < fuel" by (cases d) auto
    from Suc.IH [OF f(1) this] obtain s2 where
      "drain rd fuel k s1 = Some ((C s1, EOF), s2)" "I s2" "C s2 = []" by auto
    with r None f(2) show ?thesis by simp
  next
    case (Some x)
    with f have "e = Some EOF" "d = []" "C s1 = []" by auto
    with r f show ?thesis by simp
  qed
qed

lemma pending_GetMultiReader: "pending (GetMultiReader m) = pending m"
  by (simp add: pending_def GetMultiReader_def split: option.splits)

lemma Read_stream:
  assumes "0 < k" "stream_ok s" "Read k s = ((d, e), s')"
  shows "stream_ok s' \<and> stream_of s = d @ stream_of s'
         \<and> ((e = None \<and> d \<noteq> []) \<or> (e = Some EOF \<and> d = [] \<and> stream_of s' = []))"
proof -
  obtain m w where s: "s = (m, w)" by (cases s)
  obtain rs where rs: "multiReader (GetMultiReader m) = Some rs" "rs = pending m"
    by (auto simp: GetMultiReader_def pending_def split: option.splits)
  obtain d1 e1 h1 rs1 where mr: "multi_Read k (heap w) rs = ((d1, e1), h1, rs1)"
    by (metis prod.exhaust)
  from assms(2) s rs have g: "good (heap w) rs" by (simp add: stream_ok_def)
  note fact = multi_Read_good [OF assms(1) g mr]
  from assms(3) s rs(1) mr
  have res: "d = d1" "e = e1" "heap (snd s') = h1" "pending (fst s') = rs1"
    by (auto simp: Read_def Let_def pending_def)
  have "stream_of s = content_of (heap w) rs" using s rs by (simp add: stream_of_def)
  moreover have "stream_of s' = content_of h1 rs1" "stream_ok s' = good h1 rs1"
    using res by (simp_all add: stream_of_def stream_ok_def)
  ultimately show ?thesis using fact res
    by (auto simp: content_of_def)
qed

lemma Body_Read_stream:
  assumes "0 < k" "stream_ok s" "multiReader (fst s) \<noteq> None" "Body_Read k s = ((d, e), s')"
  shows "(stream_ok s' \<and> multiReader (fst s') \<noteq> None) \<and> stream_of s = d @ stream_of s'
         \<and> ((e = None \<and> d \<noteq> []) \<or> (e = Some EOF \<and> d = [] \<and> stream_of s' = []))"
proof -
  obtain m w where s: "s = (m, w)" by (cases s)
  from assms(3) s obtain rs where rs: "multiReader m = Some rs" "rs = pending m"
    by (auto simp: pending_def)
  obtain d1 e1 h1 rs1 where mr: "multi_Read k (heap w) rs = ((d1, e1), h1, rs1)"
    by (metis prod.exhaust)
  from assms(2) s rs have g: "good (heap w) rs" by (simp add: stream_ok_def)
  note fact = multi_Read_good [OF assms(1) g mr]
  from assms(4) s rs(1) mr
  have res: "d = d1" "e = e1" "heap (snd s') = h1" "pending (fst s') = rs1" "multiReader (fst s') \<noteq> None"
    by (auto simp: Body_Read_def Let_def pending_def)
  have "stream_of s = content_of (heap w) rs" using s rs by (simp add: stream_of_def)
  moreover have "stream_of s' = content_of h1 rs1" "stream_ok s' = good h1 rs1"
    using res by (simp_all add: stream_of_def stream_ok_def)
  ultimately show ?thesis using fact res
    by (auto simp: content_of_def)
qed

lemma drain_Read_stream:
  assumes "0 < k" "stream_ok s" "length (stream_of s) < fuel"
  shows "\<exists>s'. drain Read fuel k s = Some ((stream_of s, EOF), s') \<and> stream_ok s' \<and> stream_of s' = []"
  using drain_invariant [where rd = Read and I = stream_ok and C = stream_of and k = k, OF _ assms(2,3)]
    Read_stream [OF assms(1)] by blast

lemma drain_Body_Read_stream:
  assumes "0 < k" "stream_ok s" "multiReader (fst s) \<noteq> None" "length (stream_of s) < fuel"
  shows "\<exists>s'. drain Body_Read fuel k s = Some ((stream_of s, EOF), s') \<and> stream_of s' = []"
proof -
  have "\<exists>s'. drain Body_Read fuel k s = Some ((stream_of s, EOF), s')
      \<and> (stream_ok s' \<and> multiReader (fst s') \<noteq> None) \<and> stream_of s' = []"
  proof (rule drain_invariant [where I = "\<lambda>s. stream_ok s \<and> multiReader (fst s) \<noteq> None"])
    show "stream_ok s \<and> multiReader (fst s) \<noteq> None" using assms by simp
    show "length (stream_of s) < fuel" by fact
  next
    fix s d e s'
    assume "stream_ok s \<and> multiReader (fst s) \<noteq> None" "Body_Read k s = ((d, e), s')"
    then show "(stream_ok s' \<and> multiReader (fst s') \<noteq> None) \<and> stream_of s = d @ stream_of s'
       \<and> ((e = None \<and> d \<noteq> []) \<or> (e = Some EOF \<and> d = [] \<and> stream_of s' = []))"
      using Body_Read_stream [OF assms(1)] by blast
  qed
  then show ?thesis by blast
qed

lemma GetMultiReader_Some: "\<exists>rs. multiReader (GetMultiReader m) = Some rs"
  by (cases "multiReader m") (simp_all add: GetMultiReader_def)

lemma Read_count:
  "Read k s = ((d, e), s') \<Longrightarrow> count (fst s') = int64 (count (fst s) + int (length d))"
proof -
  assume a: "Read k s = ((d, e), s')"
  obtain m w where s: "s = (m, w)" by (cases s)
  obtain rs where rs: "multiReader (GetMultiReader m) = Some rs"
    using GetMultiReader_Some by blast
  have c: "count (GetMultiReader m) = count m"
    by (simp add: GetMultiReader_def split: option.splits)
  obtain d1 e1 h1 rs1 where mr: "multi_Read k (heap w) rs = ((d1, e1), h1, rs1)"
    by (metis prod.exhaust)
  from a s rs mr have "d = d1" and
    "fst s' = (GetMultiReader m)\<lparr>multiReader := Some rs1,
        count := int64 (count (GetMultiReader m) + int64 (int (length d1)))\<rparr>"
    by (auto simp: Read_def Let_def)
  then show ?thesis using c s by (simp add: int64_add_right)
qed

lemma drain_Read_count:
  "drain Read fuel k s = Some ((out, e), s') \<Longrightarrow>
     count (fst s') = int64 (count (fst s) + int (length out))"
proof (induction fuel arbitrary: s out)
  case 0
  then show ?case by simp
next
  case (Suc fuel)
  obtain d e1 s1 where r: "Read k s = ((d, e1), s1)" by (metis prod.exhaust)
  note c = Read_count [OF r]
  show ?case
  proof (cases e1)
    case None
    with Suc.prems r obtain ds where
      ds: "drain Read fuel k s1 = Some ((ds, e), s')" "out = d @ ds"
      by (auto split: option.splits)
    from Suc.IH [OF ds(1)] c ds(2) show ?thesis
      by (simp add: int64_add_left add.assoc)
  next
    case (Some x)
    with Suc.prems r c show ?thesis by auto
  qed
qed

section \<open>The shape of the slice of readers\<close>

lemma AddReader_nonempty:
  "readers m \<noteq> [] \<Longrightarrow>
   AddReader r n m =
     (None, m\<lparr>readers := butlast (readers m) @ [r, last (readers m)],
              length_mr := int64 (length_mr m + n)\<rparr>)"
  by (simp add: AddReader_def Let_def butlast_conv_take last_conv_nth)

lemma AddReader_empty: "readers m = [] \<Longrightarrow> AddReader r n m = (Some PanicSliceBounds, m)"
  by (simp add: AddReader_def)

lemma AddReader_shape:
  assumes "readers m = b # xs @ [c]"
  shows "AddReader r n m =
     (None, m\<lparr>readers := b # xs @ [r, c], length_mr := int64 (length_mr m + n)\<rparr>)"
proof -
  have "readers m \<noteq> []" using assms by simp
  moreover have "butlast (readers m) = b # xs" "last (readers m) = c"
    using assms by (simp_all add: butlast_append)
  ultimately show ?thesis by (simp add: AddReader_nonempty)
qed

lemma add_form_shape:
  assumes "readers m = b # xs @ [c]"
  shows "add_form form r n (m, w) =
     (None, (m\<lparr>readers := b # xs @ [nxt w, r, c],
               length_mr := int64 (length_mr m + int (length form) + n)\<rparr>,
             w\<lparr>heap := (heap w)(nxt w \<mapsto> BytesReader form), nxt := Suc (nxt w)\<rparr>))"
proof -
  let ?m1 = "m\<lparr>readers := b # xs @ [nxt w, c],
                 length_mr := int64 (length_mr m + int64 (int (length form)))\<rparr>"
  have 1: "AddReader (nxt w) (int64 (int (length form))) m = (None, ?m1)"
    using assms by (rule AddReader_shape)
  have "readers ?m1 = b # (xs @ [nxt w]) @ [c]" by simp
  from AddReader_shape [OF this, of r n]
  have 2: "AddReader r n ?m1 =
     (None, m\<lparr>readers := b # xs @ [nxt w, r, c],
              length_mr := int64 (length_mr m + int (length form) + n)\<rparr>)"
    by (simp add: int64_add_left int64_add_right)
  show ?thesis by (simp add: add_form_def alloc_def 1 2)
qed

lemma shaped_readers_update:
  "shaped b c m \<Longrightarrow> readers m' = readers m \<Longrightarrow> shaped b c m'"
  by (simp add: shaped_def)

lemma SetBoundary_readers: "readers (snd (SetBoundary t m)) = readers m"
  by (simp add: SetBoundary_def split: option.splits prod.splits)

lemma GetMultiReader_readers: "readers (GetMultiReader m) = readers m"
  by (simp add: GetMultiReader_def split: option.splits)

lemma SetupRequest_struct: "snd (snd (SetupRequest req m)) = GetMultiReader m"
  by (simp add: SetupRequest_def Let_def split: option.splits)

lemma SetupRequest_readers: "readers (snd (snd (SetupRequest req m))) = readers m"
  by (simp add: SetupRequest_struct GetMultiReader_readers)

lemma SetupRequest_built: "multiReader m \<noteq> None \<Longrightarrow> snd (snd (SetupRequest req m)) = m"
  by (auto simp: SetupRequest_struct GetMultiReader_def)

lemma SetupRequest_ContentLength:
  "Header req \<noteq> None \<Longrightarrow>
     fst (SetupRequest req m) = None
     \<and> ContentLength (fst (snd (SetupRequest req m))) = length_mr m"
  by (auto simp: SetupRequest_def GetMultiReader_def Let_def split: option.splits)

lemma SetupRequest_nil_Header:
  "Header req = None \<Longrightarrow>
     fst (SetupRequest req m) = Some PanicNilMap
     \<and> ContentLength (fst (snd (SetupRequest req m))) = ContentLength req"
  by (simp add: SetupRequest_def Let_def)

lemma SetupRequest_body:
  assumes "stream_ok s" "0 < k" "length (stream_of s) < fuel"
  shows "map_option fst (drain Body_Read fuel k (snd (snd (SetupRequest req (fst s))), snd s))
           = Some (stream_of s, EOF)"
proof -
  let ?s' = "(snd (snd (SetupRequest req (fst s))), snd s)"
  have m: "snd (snd (SetupRequest req (fst s))) = GetMultiReader (fst s)"
    by (rule SetupRequest_struct)
  have p: "pending (fst ?s') = pending (fst s)" by (simp add: m pending_GetMultiReader)
  have ok: "stream_ok ?s'" using assms(1) p by (simp add: stream_ok_def)
  have st: "stream_of ?s' = stream_of s" using p by (simp add: stream_of_def)
  have b: "multiReader (fst ?s') \<noteq> None" using GetMultiReader_Some [of "fst s"] by (auto simp: m)
  have "length (stream_of ?s') < fuel" using assms(3) st by simp
  from drain_Body_Read_stream [OF assms(2) ok b this] obtain s2 where
    "drain Body_Read fuel k ?s' = Some ((stream_of ?s', EOF), s2)" by blast
  with st show ?thesis by simp
qed

lemma Read_readers: "readers (fst (snd (Read k (m, w)))) = readers m"
  by (simp add: Read_def Let_def GetMultiReader_readers split: option.splits prod.splits)

lemma Body_Read_readers: "readers (fst (snd (Body_Read k (m, w)))) = readers m"
  by (simp add: Body_Read_def split: option.splits prod.splits)

lemma AddReader_shaped: "shaped b c m \<Longrightarrow> shaped b c (snd (AddReader r n m))"
  unfolding shaped_def by (auto simp: AddReader_shape)

lemma add_form_shaped: "shaped b c m \<Longrightarrow> shaped b c (fst (snd (add_form form r n (m, w))))"
  unfolding shaped_def by (auto simp: add_form_shape)

lemma WriteFile_shaped:
  assumes "shaped b c m" shows "shaped b c (fst (snd (WriteFile key filename (m, w))))"
proof (cases "os_Open filename w")
  case (Inl e)
  then show ?thesis using assms by (simp add: WriteFile_def)
next
  case (Inr p)
  obtain fs w1 where p: "p = (fs, w1)" by (cases p)
  show ?thesis
  proof (cases "file_Stat fs w1")
    case (Inl e)
    with Inr p assms show ?thesis by (simp add: WriteFile_def)
  next
    case st: (Inr q)
    obtain base sz where q: "q = (base, sz)" by (cases q)
    obtain e m2 w2 where
      af: "add_form (form_header (boundary m) ''file'' (file_Name fs w1)) fs sz (m, w1) = (e, (m2, w2))"
      by (metis prod.exhaust)
    from add_form_shaped [OF assms, of "form_header (boundary m) ''file'' (file_Name fs w1)" fs sz w1] af
    have "shaped b c m2" by simp
    with Inr p st q af show ?thesis
      by (simp add: WriteFile_def)
  qed
qed

lemma AddFile_shaped:
  assumes "shaped b c m" shows "shaped b c (fst (snd (AddFile f (m, w))))"
proof (cases "file_Stat f w")
  case (Inl e)
  then show ?thesis using assms by (simp add: AddFile_def)
next
  case (Inr q)
  obtain base sz where q: "q = (base, sz)" by (cases q)
  with Inr assms show ?thesis by (simp add: AddFile_def add_form_shaped)
qed

lemma exec_shaped: "shaped b c (fst s) \<Longrightarrow> shaped b c (fst (exec cl s))"
proof (cases s)
  case (Pair m w)
  assume a: "shaped b c (fst s)"
  with Pair have m: "shaped b c m" by simp
  show ?thesis
  proof (cases cl)
    case (SetBoundaryC t)
    with Pair m show ?thesis by (simp add: shaped_def SetBoundary_readers)
  next
    case (AddReaderC r n)
    with Pair m show ?thesis by (simp add: AddReader_shaped)
  next
    case (AddFormReaderC name filename n r)
    with Pair m show ?thesis by (simp add: AddFormReader_def add_form_shaped)
  next
    case (WriteFileC key filename)
    with Pair m show ?thesis by (simp add: WriteFile_shaped)
  next
    case (AddFileC f)
    with Pair m show ?thesis by (simp add: AddFile_shaped)
  next
    case GetMultiReaderC
    with Pair m show ?thesis by (simp add: shaped_def GetMultiReader_readers)
  next
    case (SetupRequestC req)
    with Pair m show ?thesis by (simp add: shaped_def SetupRequest_readers)
  next
    case (ReadC k)
    with Pair m show ?thesis by (simp add: shaped_def Read_readers)
  next
    case (BodyReadC k)
    with Pair m show ?thesis by (simp add: shaped_def Body_Read_readers)
  qed
qed

lemma run_snoc: "run (cs @ [cl]) s = exec cl (run cs s)"
  by (simp add: run_def)

lemma run_shaped: "shaped b c (fst s) \<Longrightarrow> shaped b c (fst (run cs s))"
  by (induction cs rule: rev_induct) (simp_all add: run_def exec_shaped)

lemma New_readers: "readers (fst (New rnd w)) = [nxt w, Suc (nxt w)]"
  by (simp add: New_def alloc_def Let_def)

lemma New_shaped: "shaped (nxt w) (Suc (nxt w)) (fst (New rnd w))"
  by (simp add: shaped_def New_readers)

section \<open>The closing line stays a literal reader\<close>

lemma reader_Read_BytesReader:
  "reader_Read k (BytesReader s) = (x, r') \<Longrightarrow> \<exists>j. r' = BytesReader (drop j s)"
  by (cases "s = []") auto

lemma multi_Read_literal:
  assumes "\<exists>j. h c = Some (BytesReader (drop j txt))" "multi_Read k h rs = (x, h', rs')"
  shows "\<exists>j. h' c = Some (BytesReader (drop j txt))"
  using assms
proof (induction rs arbitrary: h)
  case Nil
  then show ?case by simp
next
  case (Cons a rs)
  show ?case
  proof (cases "h a")
    case None
    with Cons.prems show ?thesis by simp
  next
    case (Some r)
    obtain d e r1 where rr: "reader_Read k r = ((d, e), r1)" by (metis prod.exhaust)
    have lit1: "\<exists>j. (h(a \<mapsto> r1)) c = Some (BytesReader (drop j txt))"
    proof (cases "a = c")
      case True
      with Cons.prems(1) Some obtain j where j: "r = BytesReader (drop j txt)" by auto
      with rr obtain j' where "r1 = BytesReader (drop j' (drop j txt))"
        using reader_Read_BytesReader by blast
      then have "r1 = BytesReader (drop (j' + j) txt)" by simp
      with True show ?thesis by auto
    next
      case False
      with Cons.prems(1) show ?thesis by simp
    qed
    show ?thesis
    proof (cases "e = Some EOF \<and> d = []")
      case True
      with Cons.prems(2) Some rr have "multi_Read k (h(a \<mapsto> r1)) rs = (x, h', rs')" by simp
      from Cons.IH [OF lit1 this] show ?thesis .
    next
      case False
      with Cons.prems(2) Some rr have "h' = h(a \<mapsto> r1)" by (auto split: if_splits)
      with lit1 show ?thesis by simp
    qed
  qed
qed

lemma literal_at_alloc: "literal_at txt c w \<Longrightarrow> literal_at txt c (snd (alloc r w))"
  by (auto simp: literal_at_def alloc_def)

lemma literal_at_os_Close: "literal_at txt c w \<Longrightarrow> literal_at txt c (os_Close f w)"
  by (auto simp: literal_at_def os_Close_def split: option.splits reader.splits)

lemma literal_at_os_Open:
  "literal_at txt c w \<Longrightarrow> os_Open filename w = Inr (fs, w1) \<Longrightarrow> literal_at txt c w1"
proof -
  assume l: "literal_at txt c w" and o: "os_Open filename w = Inr (fs, w1)"
  from o obtain content where "alloc (OsFile filename content 0 False) w = (fs, w1)"
    by (auto simp: os_Open_def split: option.splits)
  then have "w1 = snd (alloc (OsFile filename content 0 False) w)" by simp
  with l show ?thesis by (simp add: literal_at_alloc)
qed

lemma add_form_world:
  "snd (snd (add_form form r n (m, w))) = snd (alloc (BytesReader form) w)"
  by (simp add: add_form_def split: prod.splits option.splits)

lemma literal_at_add_form:
  "literal_at txt c w \<Longrightarrow> literal_at txt c (snd (snd (add_form form r n (m, w))))"
  by (simp add: add_form_world literal_at_alloc)

lemma literal_at_WriteFile:
  assumes "literal_at txt c w" shows "literal_at txt c (snd (snd (WriteFile key filename (m, w))))"
proof (cases "os_Open filename w")
  case (Inl e)
  then show ?thesis using assms by (simp add: WriteFile_def)
next
  case (Inr p)
  obtain fs w1 where p: "p = (fs, w1)" by (cases p)
  from assms Inr p have l1: "literal_at txt c w1" by (auto dest: literal_at_os_Open)
  show ?thesis
  proof (cases "file_Stat fs w1")
    case (Inl e)
    with Inr p l1 show ?thesis by (simp add: WriteFile_def literal_at_os_Close)
  next
    case st: (Inr q)
    obtain base sz where q: "q = (base, sz)" by (cases q)
    obtain e m2 w2 where
      af: "add_form (form_header (boundary m) ''file'' (file_Name fs w1)) fs sz (m, w1) = (e, (m2, w2))"
      by (metis prod.exhaust)
    from literal_at_add_form [OF l1, of "form_header (boundary m) ''file'' (file_Name fs w1)" fs sz m] af
    have "literal_at txt c w2" by simp
    with Inr p st q af show ?thesis
      by (simp add: WriteFile_def literal_at_os_Close)
  qed
qed

lemma literal_at_AddFile:
  assumes "literal_at txt c w" shows "literal_at txt c (snd (snd (AddFile f (m, w))))"
proof (cases "file_Stat f w")
  case (Inl e)
  then show ?thesis using assms by (simp add: AddFile_def)
next
  case (Inr q)
  obtain base sz where q: "q = (base, sz)" by (cases q)
  with Inr assms show ?thesis by (simp add: AddFile_def literal_at_add_form)
qed

lemma literal_at_multi_Read:
  assumes "literal_at txt c w" "multi_Read k (heap w) rs = (x, h', rs')"
  shows "literal_at txt c (w\<lparr>heap := h'\<rparr>)"
proof -
  from assms(1) have "\<exists>j. heap w c = Some (BytesReader (drop j txt))" "c < nxt w"
    by (simp_all add: literal_at_def)
  from multi_Read_literal [OF this(1) assms(2)] this(2)
  show ?thesis by (simp add: literal_at_def)
qed

lemma literal_at_Read:
  assumes "literal_at txt c w" shows "literal_at txt c (snd (snd (Read k (m, w))))"
proof -
  obtain rs where rs: "multiReader (GetMultiReader m) = Some rs"
    using GetMultiReader_Some by blast
  obtain x h1 rs1 where mr: "multi_Read k (heap w) rs = (x, h1, rs1)"
    by (metis prod.exhaust)
  have "snd (snd (Read k (m, w))) = w\<lparr>heap := h1\<rparr>"
    using rs mr by (simp add: Read_def Let_def split: prod.splits)
  with literal_at_multi_Read [OF assms mr] show ?thesis by simp
qed

lemma literal_at_Body_Read:
  assumes "literal_at txt c w" shows "literal_at txt c (snd (snd (Body_Read k (m, w))))"
proof (cases "multiReader m")
  case None
  with assms show ?thesis by (simp add: Body_Read_def)
next
  case (Some rs)
  obtain x h1 rs1 where mr: "multi_Read k (heap w) rs = (x, h1, rs1)"
    by (metis prod.exhaust)
  have "snd (snd (Body_Read k (m, w))) = w\<lparr>heap := h1\<rparr>"
    using Some mr by (simp add: Body_Read_def split: prod.splits)
  with literal_at_multi_Read [OF assms mr] show ?thesis by simp
qed

lemma exec_literal_at: "literal_at txt c (snd s) \<Longrightarrow> literal_at txt c (snd (exec cl s))"
proof (cases s)
  case (Pair m w)
  assume "literal_at txt c (snd s)"
  with Pair have l: "literal_at txt c w" by simp
  show ?thesis
  proof (cases cl)
    case (AddFormReaderC name filename n r)
    with Pair l show ?thesis by (simp add: AddFormReader_def literal_at_add_form)
  next
    case (WriteFileC key filename)
    with Pair l show ?thesis by (simp add: literal_at_WriteFile)
  next
    case (AddFileC f)
    with Pair l show ?thesis by (simp add: literal_at_AddFile)
  next
    case (ReadC k)
    with Pair l show ?thesis by (simp add: literal_at_Read)
  next
    case (BodyReadC k)
    with Pair l show ?thesis by (simp add: literal_at_Body_Read)
  qed (use Pair l in simp_all)
qed

lemma run_literal_at: "literal_at txt c (snd s) \<Longrightarrow> literal_at txt c (snd (run cs s))"
  by (induction cs rule: rev_induct) (simp_all add: run_def exec_literal_at)

lemma New_literal_at:
  "literal_at (formClose (randomBoundary rnd)) (Suc (nxt w)) (snd (New rnd w))"
proof -
  have "heap (snd (New rnd w)) (Suc (nxt w)) = Some (BytesReader (drop 0 (formClose (randomBoundary rnd))))"
    by (simp add: New_def alloc_def Let_def NewWriter_def)
  moreover have "nxt (snd (New rnd w)) = Suc (Suc (nxt w))"
    by (simp add: New_def alloc_def Let_def)
  ultimately show ?thesis unfolding literal_at_def by (metis lessI)
qed

section \<open>Invariants of the slice of readers\<close>

lemma New_v2_readers: "readers (fst (New_v2 rnd w)) = [Suc (nxt w), Suc (Suc (nxt w))]"
  by (simp add: New_v2_def alloc_def Let_def)

lemma shaped_length: "shaped b c m \<Longrightarrow> 2 \<le> length (readers m)"
  by (auto simp: shaped_def)

lemma shaped_last: "shaped b c m \<Longrightarrow> readers m \<noteq> [] \<and> last (readers m) = c \<and> hd (readers m) = b"
  by (auto simp: shaped_def)

lemma run_New_shaped: "shaped (nxt w) (Suc (nxt w)) (fst (run cs (New rnd w)))"
  by (rule run_shaped) (rule New_shaped)

lemma run_New_v2_shaped: "shaped (Suc (nxt w)) (Suc (Suc (nxt w))) (fst (run cs (New_v2 rnd w)))"
  by (rule run_shaped) (simp add: shaped_def New_v2_readers)

text \<open>
  C9: after \<^verbatim>\<open>New\<close> and any sequence of calls the slice \<open>readers\<close> has at least two
  elements, so the slice expressions of \<^verbatim>\<open>AddReader\<close> are in bounds and the call does not
  panic; on the zero value, whose slice is empty, \<^verbatim>\<open>AddReader\<close> panics.
\<close>

theorem readers_length_at_least_two:
  "2 \<le> length (readers (fst (run cs (New rnd w))))
   \<and> 2 \<le> length (readers (fst (run cs (New_v2 rnd w))))
   \<and> fst (AddReader r n (fst (run cs (New rnd w)))) = None
   \<and> fst (AddReader r n (fst (run cs (New_v2 rnd w)))) = None
   \<and> AddReader r n zero_MultipartReader = (Some PanicSliceBounds, zero_MultipartReader)"
proof -
  note s1 = run_New_shaped [of w cs rnd] and s2 = run_New_v2_shaped [of w cs rnd]
  have "fst (AddReader r n (fst (run cs (New rnd w)))) = None"
    using shaped_last [OF s1] by (simp add: AddReader_nonempty)
  moreover have "fst (AddReader r n (fst (run cs (New_v2 rnd w)))) = None"
    using shaped_last [OF s2] by (simp add: AddReader_nonempty)
  moreover have "AddReader r n zero_MultipartReader = (Some PanicSliceBounds, zero_MultipartReader)"
    by (simp add: AddReader_empty zero_MultipartReader_def)
  ultimately show ?thesis using shaped_length [OF s1] shaped_length [OF s2] by simp
qed

theorem readers_length_at_least_two_witness:
  "2 \<le> length (readers (fst (run [AddReaderC 0 3, ReadC 2, AddReaderC 1 2] (New [CHR 0x01] example_world))))
   \<and> readers (fst (run [AddReaderC 0 3, ReadC 2, AddReaderC 1 2] (New [CHR 0x01] example_world))) = [2, 0, 1, 3]
   \<and> fst (AddReader 1 2 (fst (run [AddReaderC 0 3, ReadC 2] (New [CHR 0x01] example_world)))) = None
   \<and> AddReader 1 2 zero_MultipartReader = (Some PanicSliceBounds, zero_MultipartReader)"
proof -
  have "readers (fst (run [AddReaderC 0 3, ReadC 2, AddReaderC 1 2] (New [CHR 0x01] example_world))) = [2, 0, 1, 3]"
    by (simp add: run_def New_def alloc_def Let_def example_world_def AddReader_def Read_def
        GetMultiReader_def NewWriter_def split: prod.splits)
  then show ?thesis
    using readers_length_at_least_two [of "[AddReaderC 0 3, ReadC 2, AddReaderC 1 2]" "[CHR 0x01]" example_world 1 2]
      readers_length_at_least_two [of "[AddReaderC 0 3, ReadC 2]" "[CHR 0x01]" example_world 1 2]
    by simp
qed

text \<open>
  C2: the reader of the closing line that \<^verbatim>\<open>New\<close> puts last stays the last element of
  \<open>readers\<close> through every sequence of calls, and the object it points to stays a reader
  over (what is left of) the closing line; \<^verbatim>\<open>AddReader\<close> puts the new reader right
  before the last element and keeps the last element last.
\<close>

theorem closing_boundary_stays_last:
  "readers (fst (New rnd w)) = [nxt w, Suc (nxt w)]
   \<and> heap (snd (New rnd w)) (Suc (nxt w))
       = Some (BytesReader (formClose (Boundary (fst (New rnd w)))))
   \<and> readers (fst (run cs (New rnd w))) \<noteq> []
   \<and> last (readers (fst (run cs (New rnd w)))) = Suc (nxt w)
   \<and> (\<exists>j. heap (snd (run cs (New rnd w))) (Suc (nxt w))
           = Some (BytesReader (drop j (formClose (Boundary (fst (New rnd w)))))))
   \<and> AddReader r n (fst (run cs (New rnd w)))
       = (None, (fst (run cs (New rnd w)))
            \<lparr>readers := butlast (readers (fst (run cs (New rnd w))))
                          @ [r, last (readers (fst (run cs (New rnd w))))],
             length_mr := int64 (length_mr (fst (run cs (New rnd w))) + n)\<rparr>)"
proof -
  note s1 = shaped_last [OF run_New_shaped [of w cs rnd]]
  have b: "Boundary (fst (New rnd w)) = randomBoundary rnd"
    by (simp add: Boundary_def New_def alloc_def Let_def NewWriter_def)
  have "literal_at (formClose (randomBoundary rnd)) (Suc (nxt w)) (snd (run cs (New rnd w)))"
    by (rule run_literal_at) (rule New_literal_at)
  then have l: "\<exists>j. heap (snd (run cs (New rnd w))) (Suc (nxt w))
           = Some (BytesReader (drop j (formClose (Boundary (fst (New rnd w))))))"
    by (simp add: literal_at_def b)
  have h: "heap (snd (New rnd w)) (Suc (nxt w))
       = Some (BytesReader (formClose (Boundary (fst (New rnd w)))))"
    by (simp add: Boundary_def New_def alloc_def Let_def NewWriter_def)
  show ?thesis using s1 l h by (simp add: New_readers AddReader_nonempty)
qed

theorem closing_boundary_stays_last_witness:
  "last (readers (fst (run [AddReaderC 0 3, ReadC 2, AddReaderC 1 2] (New [CHR 0x01] example_world)))) = 3
   \<and> readers (fst (run [AddReaderC 0 3, ReadC 2, AddReaderC 1 2] (New [CHR 0x01] example_world))) = [2, 0, 1, 3]
   \<and> heap (snd (New [CHR 0x01] example_world)) 3 = Some (BytesReader (CRLF @ ''--01--'' @ CRLF))"
proof -
  have "readers (fst (run [AddReaderC 0 3, ReadC 2, AddReaderC 1 2] (New [CHR 0x01] example_world))) = [2, 0, 1, 3]"
    by (simp add: run_def New_def alloc_def Let_def example_world_def AddReader_def Read_def
        GetMultiReader_def NewWriter_def split: prod.splits)
  moreover have "Boundary (fst (New [CHR 0x01] example_world)) = ''01''"
    by (simp add: Boundary_def New_def alloc_def Let_def NewWriter_def randomBoundary_def
        hex_byte_def hexdigit_def)
  moreover have "nxt example_world = 2" by (simp add: example_world_def)
  ultimately show ?thesis
    using closing_boundary_stays_last [of "[CHR 0x01]" example_world "[AddReaderC 0 3, ReadC 2, AddReaderC 1 2]" 1 2]
    by (simp add: formClose_def eval_nat_numeral)
qed

section \<open>What New sets up\<close>

lemma hexdigit_plain: "n < 16 \<Longrightarrow> hexdigit n \<notin> set tspecials"
proof -
  have "\<forall>n \<in> set [0..<16]. hexdigit n \<notin> set tspecials"
    by code_simp
  moreover assume "n < 16"
  ultimately show ?thesis by simp
qed

lemma hex_byte_plain: "x \<in> set (hex_byte c) \<Longrightarrow> x \<notin> set tspecials"
proof -
  have "(of_char c :: nat) < 256" by simp
  then have "(of_char c :: nat) div 16 < 16" by (simp add: less_mult_imp_div_less)
  moreover have "(of_char c :: nat) mod 16 < 16" by simp
  moreover assume "x \<in> set (hex_byte c)"
  ultimately show ?thesis using hexdigit_plain by (auto simp: hex_byte_def)
qed

lemma randomBoundary_plain: "\<not> list_ex (\<lambda>c. c \<in> set tspecials) (randomBoundary rnd)"
  by (auto simp: randomBoundary_def list_ex_iff dest: hex_byte_plain)

lemma New_contentType:
  "contentType (fst (New rnd w)) = ''multipart/form-data; boundary='' @ randomBoundary rnd"
  using randomBoundary_plain [of rnd]
  by (simp add: New_def alloc_def Let_def NewWriter_def FormDataContentType_def)

lemma New_v2_contentType:
  "contentType (fst (New_v2 rnd w)) = ''multipart/form-data; boundary='' @ randomBoundary rnd"
  using randomBoundary_plain [of rnd]
  by (simp add: New_v2_def alloc_def Let_def NewWriter_def FormDataContentType_def)

lemma New_fields:
  "boundary (fst (New rnd w)) = randomBoundary rnd"
  "multiReader (fst (New rnd w)) = None"
  "count (fst (New rnd w)) = 0"
  "length_mr (fst (New rnd w)) = int64 (int (length (formClose (randomBoundary rnd))))"
  "writer (fst (New rnd w)) = Some \<lparr>target = nxt w, wboundary = randomBoundary rnd, lastpart = False\<rparr>"
  by (simp_all add: New_def alloc_def Let_def NewWriter_def)

lemma New_heap:
  "heap (snd (New rnd w)) = (heap w)(nxt w \<mapsto> BytesBuffer [],
      Suc (nxt w) \<mapsto> BytesReader (formClose (randomBoundary rnd)))"
  "nxt (snd (New rnd w)) = Suc (Suc (nxt w))"
  "files (snd (New rnd w)) = files w"
  by (simp_all add: New_def alloc_def Let_def NewWriter_def)

lemma New_v2_fields:
  "boundary (fst (New_v2 rnd w)) = randomBoundary rnd"
  "multiReader (fst (New_v2 rnd w)) = None"
  "count (fst (New_v2 rnd w)) = 0"
  by (simp_all add: New_v2_def alloc_def Let_def NewWriter_def)

lemma New_v2_heap:
  "heap (snd (New_v2 rnd w)) = (heap w)(nxt w \<mapsto> BytesBuffer [], Suc (nxt w) \<mapsto> BytesReader [],
      Suc (Suc (nxt w)) \<mapsto> BytesReader (formClose (randomBoundary rnd)))"
  by (simp_all add: New_v2_def alloc_def Let_def NewWriter_def)

lemma New_stream:
  "stream_ok (New rnd w)" "stream_of (New rnd w) = formClose (randomBoundary rnd)"
  by (simp_all add: stream_ok_def stream_of_def pending_def New_fields New_readers New_heap
      good_def readable_at_def content_of_def content_at_def)

lemma New_v2_stream:
  "stream_ok (New_v2 rnd w)" "stream_of (New_v2 rnd w) = formClose (randomBoundary rnd)"
  by (simp_all add: stream_ok_def stream_of_def pending_def New_v2_fields New_v2_readers New_v2_heap
      good_def readable_at_def content_of_def content_at_def)

lemma drain_Read_output:
  assumes "0 < k" "stream_ok s" "length (stream_of s) < fuel"
  shows "map_option fst (drain Read fuel k s) = Some (stream_of s, EOF)"
  using drain_Read_stream [OF assms] by auto

text \<open>
  C6 (as amended): \<^verbatim>\<open>New\<close> takes the writer's random boundary, derives the content type
  \<^verbatim>\<open>multipart/form-data; boundary=<token>\<close> and sets up \<open>readers\<close> with two elements: an
  empty body reader and the reader of the closing line \<^verbatim>\<open>\r\n--<boundary>--\r\n\<close>. With
  nothing appended, reading to the end gives exactly the closing line. Both revisions of
  \<^verbatim>\<open>New\<close> behave so.
\<close>

theorem New_sets_up_closing_line:
  "Boundary (fst (New rnd w)) = randomBoundary rnd
   \<and> ContentType (fst (New rnd w)) = ''multipart/form-data; boundary='' @ Boundary (fst (New rnd w))
   \<and> readers (fst (New rnd w)) = [nxt w, Suc (nxt w)]
   \<and> heap (snd (New rnd w)) (nxt w) = Some (BytesBuffer [])
   \<and> heap (snd (New rnd w)) (Suc (nxt w))
        = Some (BytesReader (CRLF @ ''--'' @ Boundary (fst (New rnd w)) @ ''--'' @ CRLF))
   \<and> (0 < k \<and> length (formClose (randomBoundary rnd)) < fuel \<longrightarrow>
        map_option fst (drain Read fuel k (New rnd w))
          = Some (CRLF @ ''--'' @ Boundary (fst (New rnd w)) @ ''--'' @ CRLF, EOF))
   \<and> Boundary (fst (New_v2 rnd w)) = randomBoundary rnd
   \<and> ContentType (fst (New_v2 rnd w)) = ''multipart/form-data; boundary='' @ Boundary (fst (New_v2 rnd w))
   \<and> readers (fst (New_v2 rnd w)) = [Suc (nxt w), Suc (Suc (nxt w))]
   \<and> heap (snd (New_v2 rnd w)) (Suc (nxt w)) = Some (BytesReader [])
   \<and> heap (snd (New_v2 rnd w)) (Suc (Suc (nxt w)))
        = Some (BytesReader (CRLF @ ''--'' @ Boundary (fst (New_v2 rnd w)) @ ''--'' @ CRLF))
   \<and> (0 < k \<and> length (formClose (randomBoundary rnd)) < fuel \<longrightarrow>
        map_option fst (drain Read fuel k (New_v2 rnd w))
          = Some (CRLF @ ''--'' @ Boundary (fst (New_v2 rnd w)) @ ''--'' @ CRLF, EOF))"
proof -
  have d1: "0 < k \<and> length (formClose (randomBoundary rnd)) < fuel \<longrightarrow>
        map_option fst (drain Read fuel k (New rnd w)) = Some (formClose (randomBoundary rnd), EOF)"
    using drain_Read_output [of k "New rnd w" fuel] by (simp add: New_stream)
  have d2: "0 < k \<and> length (formClose (randomBoundary rnd)) < fuel \<longrightarrow>
        map_option fst (drain Read fuel k (New_v2 rnd w)) = Some (formClose (randomBoundary rnd), EOF)"
    using drain_Read_output [of k "New_v2 rnd w" fuel] by (simp add: New_v2_stream)
  have f: "CRLF @ ''--'' @ randomBoundary rnd @ ''--'' @ CRLF = formClose (randomBoundary rnd)"
    by (simp add: formClose_def)
  show ?thesis
    unfolding Boundary_def ContentType_def New_fields New_v2_fields New_contentType
      New_v2_contentType New_readers New_v2_readers New_heap New_v2_heap f
    using d1 d2 by simp
qed

theorem New_sets_up_closing_line_witness:
  "readers (fst (New [CHR 0x01] example_world)) = [2, 3]
   \<and> ContentType (fst (New [CHR 0x01] example_world)) = ''multipart/form-data; boundary=01''
   \<and> map_option fst (drain Read 11 4 (New [CHR 0x01] example_world))
        = Some (CRLF @ ''--01--'' @ CRLF, EOF)"
proof -
  have b: "randomBoundary [CHR 0x01] = ''01''"
    by (simp add: randomBoundary_def hex_byte_def hexdigit_def)
  have n: "nxt example_world = 2" by (simp add: example_world_def)
  have l: "(0::nat) < 4 \<and> length (formClose (randomBoundary [CHR 0x01])) < 11"
    by (simp add: b formClose_def CRLF_def)
  note t = New_sets_up_closing_line [of "[CHR 0x01]" example_world 4 11]
  from t have 1: "readers (fst (New [CHR 0x01] example_world)) = [2, 3]"
    by (simp add: n eval_nat_numeral)
  from t have 2: "ContentType (fst (New [CHR 0x01] example_world)) = ''multipart/form-data; boundary=01''"
    by (simp add: b)
  from t have b': "Boundary (fst (New [CHR 0x01] example_world)) = ''01''"
    by (simp add: b)
  from t l have 3: "map_option fst (drain Read 11 4 (New [CHR 0x01] example_world))
        = Some (CRLF @ ''--01--'' @ CRLF, EOF)"
    by (simp add: b b')
  from 1 2 3 show ?thesis by simp
qed

text \<open>
  C6 as stated asks for a slice of exactly one element; \<^verbatim>\<open>New\<close> builds two, the body
  reader first.
\<close>

theorem New_one_element_counterexample:
  "length (readers (fst (New [CHR 0x01] example_world))) \<noteq> 1
   \<and> readers (fst (New [CHR 0x01] example_world)) = [2, 3]
   \<and> heap (snd (New [CHR 0x01] example_world)) 2 = Some (BytesBuffer [])
   \<and> length (readers (fst (New_v2 [CHR 0x01] example_world))) \<noteq> 1"
  by (simp add: New_def New_v2_def alloc_def Let_def example_world_def NewWriter_def)

section \<open>The counter\<close>

lemma AddReader_count: "count (snd (AddReader r n m)) = count m"
  by (simp add: AddReader_def Let_def)

lemma add_form_count: "count (fst (snd (add_form form r n (m, w)))) = count m"
proof (cases "readers m = []")
  case True
  then show ?thesis by (simp add: add_form_def AddReader_empty split: prod.splits)
next
  case False
  then show ?thesis by (simp add: add_form_def AddReader_nonempty split: prod.splits)
qed

lemma WriteFile_count: "count (fst (snd (WriteFile key filename (m, w)))) = count m"
proof (cases "os_Open filename w")
  case (Inl e)
  then show ?thesis by (simp add: WriteFile_def)
next
  case (Inr p)
  obtain fs w1 where p: "p = (fs, w1)" by (cases p)
  show ?thesis
  proof (cases "file_Stat fs w1")
    case (Inl e)
    with Inr p show ?thesis by (simp add: WriteFile_def)
  next
    case st: (Inr q)
    obtain base sz where q: "q = (base, sz)" by (cases q)
    obtain e m2 w2 where
      af: "add_form (form_header (boundary m) ''file'' (file_Name fs w1)) fs sz (m, w1) = (e, (m2, w2))"
      by (metis prod.exhaust)
    from add_form_count [of "form_header (boundary m) ''file'' (file_Name fs w1)" fs sz m w1] af
    have "count m2 = count m" by simp
    with Inr p st q af show ?thesis by (simp add: WriteFile_def)
  qed
qed

lemma AddFile_count: "count (fst (snd (AddFile f (m, w)))) = count m"
proof (cases "file_Stat f w")
  case (Inl e)
  then show ?thesis by (simp add: AddFile_def)
next
  case (Inr q)
  obtain base sz where q: "q = (base, sz)" by (cases q)
  with Inr show ?thesis by (simp add: AddFile_def add_form_count)
qed

lemma GetMultiReader_count: "count (GetMultiReader m) = count m"
  by (simp add: GetMultiReader_def split: option.splits)

lemma Body_Read_count: "count (fst (snd (Body_Read k (m, w)))) = count m"
  by (simp add: Body_Read_def split: option.splits prod.splits)

lemma SetBoundary_count: "count (snd (SetBoundary t m)) = count m"
  by (simp add: SetBoundary_def split: option.splits prod.splits)

lemma exec_count: "\<not> is_Read cl \<Longrightarrow> count (fst (exec cl s)) = count (fst s)"
proof (cases s)
  case (Pair m w)
  assume nr: "\<not> is_Read cl"
  show ?thesis
  proof (cases cl)
    case (ReadC k)
    with nr show ?thesis by simp
  qed (use Pair in \<open>simp_all add: SetBoundary_count AddReader_count AddFormReader_def add_form_count
        WriteFile_count AddFile_count GetMultiReader_count SetupRequest_struct Body_Read_count\<close>)
qed

lemma run_count:
  "list_all (\<lambda>c. \<not> is_Read c) cs \<Longrightarrow> count (fst (run cs s)) = count (fst s)"
  by (induction cs rule: rev_induct) (simp_all add: run_def exec_count)

lemma drain_Read_output_count:
  assumes "0 < k" "stream_ok s" "length (stream_of s) < fuel"
  shows "map_option (\<lambda>r. (fst r, count (fst (snd r)))) (drain Read fuel k s)
         = Some ((stream_of s, EOF), int64 (count (fst s) + int (length (stream_of s))))"
proof -
  from drain_Read_stream [OF assms] obtain s' where
    d: "drain Read fuel k s = Some ((stream_of s, EOF), s')" by blast
  from drain_Read_count [OF d] d show ?thesis by simp
qed

text \<open>
  What holds of the counter: it is zero after \<^verbatim>\<open>New\<close> and stays zero as long as no
  \<^verbatim>\<open>Read\<close> is made; each \<^verbatim>\<open>Read\<close> adds the number of bytes it delivers (in \<^verbatim>\<open>int64\<close>
  arithmetic, so the counter does not decrease while the sum stays below \<open>2^63\<close>); and
  reading a stream of readable, distinct readers to the end through \<^verbatim>\<open>Read\<close>, with a
  non-empty buffer, ends with \<^verbatim>\<open>io.EOF\<close> and leaves the counter at the number of bytes
  delivered.
\<close>

lemma Count_follows_Read:
  "(list_all (\<lambda>c. \<not> is_Read c) cs \<longrightarrow> Count (fst (run cs (New rnd w))) = 0)
   \<and> Count (fst (snd (Read k s)))
       = int64 (Count (fst s) + int (length (fst (fst (Read k s)))))
   \<and> (- (2 ^ 63) \<le> Count (fst s) \<and> Count (fst s) + int (length (fst (fst (Read k s)))) < 2 ^ 63 \<longrightarrow>
        Count (fst (snd (Read k s))) = Count (fst s) + int (length (fst (fst (Read k s))))
        \<and> Count (fst s) \<le> Count (fst (snd (Read k s))))
   \<and> (0 < k \<and> stream_ok s \<and> Count (fst s) = 0 \<and> length (stream_of s) < fuel
        \<and> int (length (stream_of s)) < 2 ^ 63 \<longrightarrow>
        map_option (\<lambda>r. (fst r, Count (fst (snd r)))) (drain Read fuel k s)
          = Some ((stream_of s, EOF), int (length (stream_of s))))"
proof -
  have a: "list_all (\<lambda>c. \<not> is_Read c) cs \<longrightarrow> Count (fst (run cs (New rnd w))) = 0"
    by (simp add: Count_def run_count New_fields)
  obtain d e s' where r: "Read k s = ((d, e), s')" by (metis prod.exhaust)
  from Read_count [OF r] r
  have b: "Count (fst (snd (Read k s)))
       = int64 (Count (fst s) + int (length (fst (fst (Read k s)))))"
    by (simp add: Count_def)
  have c: "- (2 ^ 63) \<le> Count (fst s) \<and> Count (fst s) + int (length (fst (fst (Read k s)))) < 2 ^ 63 \<longrightarrow>
        Count (fst (snd (Read k s))) = Count (fst s) + int (length (fst (fst (Read k s))))
        \<and> Count (fst s) \<le> Count (fst (snd (Read k s)))"
  proof
    assume h: "- (2 ^ 63) \<le> Count (fst s) \<and> Count (fst s) + int (length (fst (fst (Read k s)))) < 2 ^ 63"
    then have "int64 (Count (fst s) + int (length (fst (fst (Read k s)))))
        = Count (fst s) + int (length (fst (fst (Read k s))))"
      by (intro int64_id) auto
    with b show "Count (fst (snd (Read k s))) = Count (fst s) + int (length (fst (fst (Read k s))))
        \<and> Count (fst s) \<le> Count (fst (snd (Read k s)))" by simp
  qed
  have d: "0 < k \<and> stream_ok s \<and> Count (fst s) = 0 \<and> length (stream_of s) < fuel
        \<and> int (length (stream_of s)) < 2 ^ 63 \<longrightarrow>
        map_option (\<lambda>r. (fst r, Count (fst (snd r)))) (drain Read fuel k s)
          = Some ((stream_of s, EOF), int (length (stream_of s)))"
  proof
    assume h: "0 < k \<and> stream_ok s \<and> Count (fst s) = 0 \<and> length (stream_of s) < fuel
        \<and> int (length (stream_of s)) < 2 ^ 63"
    then have "int64 (int (length (stream_of s))) = int (length (stream_of s))"
      by (intro int64_id) auto
    with h drain_Read_output_count [of k s fuel]
    show "map_option (\<lambda>r. (fst r, Count (fst (snd r)))) (drain Read fuel k s)
          = Some ((stream_of s, EOF), int (length (stream_of s)))"
      by (simp add: Count_def)
  qed
  from a b c d show ?thesis by blast
qed

lemma example_appended:
  "run [AddReaderC 0 3] (New [CHR 0x01] example_world) =
     (\<lparr>contentType = ''multipart/form-data; boundary=01'', boundary = ''01'',
       writer = Some \<lparr>target = 2, wboundary = ''01'', lastpart = False\<rparr>,
       readers = [2, 0, 3], length_mr = 13, multiReader = None, count = 0\<rparr>,
      \<lparr>heap = (\<lambda>a. None)(0 \<mapsto> BytesReader ''abc'', 1 \<mapsto> BytesReader ''de'',
                2 \<mapsto> BytesBuffer [], 3 \<mapsto> BytesReader (CRLF @ ''--01--'' @ CRLF)),
       nxt = 4, files = (\<lambda>p. None)(''a.txt'' \<mapsto> ''hello'')\<rparr>)"
  by (simp add: run_def New_def alloc_def Let_def example_world_def AddReader_def NewWriter_def
      FormDataContentType_def randomBoundary_def hex_byte_def hexdigit_def tspecials_def
      formClose_def CRLF_def int64_def)

lemma Count_follows_Read_example:
  "Count (fst (run [AddReaderC 0 3] (New [CHR 0x01] example_world))) = 0
   \<and> fst (Read 4 (run [AddReaderC 0 3] (New [CHR 0x01] example_world))) = (''abc'', None)
   \<and> Count (fst (snd (Read 4 (run [AddReaderC 0 3] (New [CHR 0x01] example_world))))) = 3
   \<and> map_option (\<lambda>r. (fst r, Count (fst (snd r))))
        (drain Read 14 4 (run [AddReaderC 0 3] (New [CHR 0x01] example_world)))
       = Some ((''abc'' @ CRLF @ ''--01--'' @ CRLF, EOF), 13)"
proof -
  define s where "s = run [AddReaderC 0 3] (New [CHR 0x01] example_world)"
  note t = Count_follows_Read [where cs = "[AddReaderC 0 3]" and rnd = "[CHR 0x01]"
      and w = example_world and k = 4 and s = s and fuel = 14]
  have ok: "stream_ok s"
    by (simp add: s_def example_appended stream_ok_def good_def readable_at_def pending_def)
  have st: "stream_of s = ''abc'' @ CRLF @ ''--01--'' @ CRLF"
    by (simp add: s_def example_appended stream_of_def content_of_def content_at_def pending_def)
  have c0: "Count (fst s) = 0"
    using t by (simp add: s_def)
  have rd: "fst (Read 4 s) = (''abc'', None)"
    by (simp add: s_def example_appended Read_def GetMultiReader_def Let_def)
  have c1: "Count (fst (snd (Read 4 s))) = 3"
    using t c0 rd by (simp add: int64_def)
  have lc: "length CRLF = 2" by (simp add: CRLF_def)
  have len: "length (stream_of s) = 13" by (simp add: st lc)
  have dr: "map_option (\<lambda>r. (fst r, Count (fst (snd r)))) (drain Read 14 4 s)
       = Some ((''abc'' @ CRLF @ ''--01--'' @ CRLF, EOF), 13)"
    using t ok c0 len by (simp add: st lc)
  from c0 rd c1 dr show ?thesis by (simp add: s_def)
qed

lemma drain_Body_Read_count:
  "drain Body_Read fuel k s = Some (r, s') \<Longrightarrow> count (fst s') = count (fst s)"
proof (induction fuel arbitrary: s r)
  case 0
  then show ?case by simp
next
  case (Suc fuel)
  obtain d e1 s1 where b: "Body_Read k s = ((d, e1), s1)" by (metis prod.exhaust)
  have c: "count (fst s1) = count (fst s)"
    using Body_Read_count [of k "fst s" "snd s"] b by simp
  show ?case
  proof (cases e1)
    case None
    with Suc.prems b obtain r1 where "drain Body_Read fuel k s1 = Some (r1, s')"
      by (auto split: option.splits)
    from Suc.IH [OF this] c show ?thesis by simp
  next
    case (Some x)
    with Suc.prems b c show ?thesis by auto
  qed
qed

text \<open>
  C8: the counter that \<^verbatim>\<open>Count\<close> returns is to be, after the stream is fully drained, the
  number of bytes the stream produced (the comment on \<^verbatim>\<open>Count\<close>: length of read data). A
  read of the body that \<^verbatim>\<open>SetupRequest\<close> puts into the request goes to the multi-reader
  and never changes the counter. After \<^verbatim>\<open>New\<close>, \<^verbatim>\<open>AddReader\<close> of a reader holding
  \<open>abc\<close> and \<^verbatim>\<open>SetupRequest\<close>, reading the request body to \<^verbatim>\<open>io.EOF\<close> delivers 13 bytes
  and leaves \<^verbatim>\<open>Count\<close> at 0; the same stream read through \<^verbatim>\<open>Read\<close> leaves it at 13.
\<close>

theorem Count_misses_reads_of_the_request_body:
  "Count (fst (snd (Body_Read k (m, w)))) = Count m
   \<and> fst (SetupRequest \<lparr>Body = None, Header = Some [], ContentLength = 0\<rparr>
        (fst (run [AddReaderC 0 3] (New [CHR 0x01] example_world)))) = None
   \<and> Body (fst (snd (SetupRequest \<lparr>Body = None, Header = Some [], ContentLength = 0\<rparr>
        (fst (run [AddReaderC 0 3] (New [CHR 0x01] example_world))))))
       = Some NopCloser_multiReader
   \<and> map_option (\<lambda>r. (fst r, Count (fst (snd r))))
        (drain Body_Read 14 4
           (snd (snd (SetupRequest \<lparr>Body = None, Header = Some [], ContentLength = 0\<rparr>
              (fst (run [AddReaderC 0 3] (New [CHR 0x01] example_world))))),
            snd (run [AddReaderC 0 3] (New [CHR 0x01] example_world))))
       = Some ((''abc'' @ CRLF @ ''--01--'' @ CRLF, EOF), 0)
   \<and> length (''abc'' @ CRLF @ ''--01--'' @ CRLF) = 13
   \<and> map_option (\<lambda>r. (fst r, Count (fst (snd r))))
        (drain Read 14 4 (run [AddReaderC 0 3] (New [CHR 0x01] example_world)))
       = Some ((''abc'' @ CRLF @ ''--01--'' @ CRLF, EOF), 13)"
proof -
  define s where "s = run [AddReaderC 0 3] (New [CHR 0x01] example_world)"
  define req where "req = \<lparr>Body = None, Header = Some [], ContentLength = 0\<rparr>"
  have lc: "length CRLF = 2" by (simp add: CRLF_def)
  have 1: "Count (fst (snd (Body_Read k (m, w)))) = Count m"
    by (simp add: Count_def Body_Read_count)
  have 2: "fst (SetupRequest req (fst s)) = None"
    "Body (fst (snd (SetupRequest req (fst s)))) = Some NopCloser_multiReader"
    by (simp_all add: SetupRequest_def Let_def req_def)
  have ok: "stream_ok s"
    by (simp add: s_def example_appended stream_ok_def good_def readable_at_def pending_def)
  have st: "stream_of s = ''abc'' @ CRLF @ ''--01--'' @ CRLF"
    by (simp add: s_def example_appended stream_of_def content_of_def content_at_def pending_def)
  have len: "length (stream_of s) < 14" by (simp add: st lc)
  have c0: "count (fst s) = 0" by (simp add: s_def example_appended)
  from SetupRequest_body [OF ok _ len, of 4 req] obtain s' where
    d: "drain Body_Read 14 4 (snd (snd (SetupRequest req (fst s))), snd s)
          = Some ((stream_of s, EOF), s')"
    by auto
  from drain_Body_Read_count [OF d] have "count (fst s') = count (GetMultiReader (fst s))"
    by (simp add: SetupRequest_struct)
  then have "Count (fst s') = 0" by (simp add: Count_def GetMultiReader_count c0)
  with d have 3: "map_option (\<lambda>r. (fst r, Count (fst (snd r))))
        (drain Body_Read 14 4 (snd (snd (SetupRequest req (fst s))), snd s))
       = Some ((''abc'' @ CRLF @ ''--01--'' @ CRLF, EOF), 0)"
    by (simp add: st)
  have 4: "length (''abc'' @ CRLF @ ''--01--'' @ CRLF) = 13" by (simp add: lc)
  from drain_Read_output_count [OF _ ok len, of 4]
  have 5: "map_option (\<lambda>r. (fst r, Count (fst (snd r)))) (drain Read 14 4 s)
       = Some ((''abc'' @ CRLF @ ''--01--'' @ CRLF, EOF), 13)"
    by (simp add: Count_def c0 st lc int64_def)
  from 1 2 3 4 5 show ?thesis unfolding s_def req_def by blast
qed

section \<open>Appending after the multi-reader is built\<close>

lemma Read_frame:
  assumes "multiReader m = Some rs"
  shows "Read k (m\<lparr>readers := x, length_mr := y\<rparr>, w) =
     (fst (Read k (m, w)),
      (fst (snd (Read k (m, w))))\<lparr>readers := x, length_mr := y\<rparr>,
      snd (snd (Read k (m, w))))"
  using assms by (simp add: Read_def GetMultiReader_def Let_def split: prod.splits)

lemma Body_Read_frame:
  "Body_Read k (m\<lparr>readers := x, length_mr := y\<rparr>, w) =
     (fst (Body_Read k (m, w)),
      (fst (snd (Body_Read k (m, w))))\<lparr>readers := x, length_mr := y\<rparr>,
      snd (snd (Body_Read k (m, w))))"
  by (simp add: Body_Read_def split: prod.splits option.splits)

lemma Read_multiReader: "multiReader (fst (snd (Read k s))) \<noteq> None"
proof -
  obtain m w where s: "s = (m, w)" by (cases s)
  obtain rs where rs: "multiReader (GetMultiReader m) = Some rs"
    using GetMultiReader_Some by blast
  show ?thesis using s rs by (simp add: Read_def Let_def split: prod.splits)
qed

lemma Body_Read_multiReader:
  "multiReader m \<noteq> None \<Longrightarrow> multiReader (fst (snd (Body_Read k (m, w)))) \<noteq> None"
  by (auto simp: Body_Read_def split: prod.splits)

lemma drain_Read_frame:
  assumes "multiReader m \<noteq> None"
  shows "map_option fst (drain Read fuel k (m\<lparr>readers := x, length_mr := y\<rparr>, w))
       = map_option fst (drain Read fuel k (m, w))"
  using assms
proof (induction fuel arbitrary: m w)
  case 0
  show ?case by simp
next
  case (Suc fuel)
  from Suc.prems obtain rs where rs: "multiReader m = Some rs" by auto
  obtain d e m1 w1 where r: "Read k (m, w) = ((d, e), (m1, w1))" by (metis prod.exhaust)
  from Read_frame [OF rs, where k = k and x = x and y = y and w = w] r
  have r': "Read k (m\<lparr>readers := x, length_mr := y\<rparr>, w)
      = ((d, e), (m1\<lparr>readers := x, length_mr := y\<rparr>, w1))" by simp
  have "multiReader m1 \<noteq> None" using Read_multiReader [of k "(m, w)"] r by simp
  from Suc.IH [OF this, of w1]
  have ih: "map_option fst (drain Read fuel k (m1\<lparr>readers := x, length_mr := y\<rparr>, w1))
       = map_option fst (drain Read fuel k (m1, w1))" .
  show ?case
  proof (cases e)
    case None
    show ?thesis
    proof (cases "drain Read fuel k (m1, w1)")
      case dn: None
      with ih have "drain Read fuel k (m1\<lparr>readers := x, length_mr := y\<rparr>, w1) = None" by simp
      with dn r r' None show ?thesis by simp
    next
      case (Some res)
      with ih have "drain Read fuel k (m1\<lparr>readers := x, length_mr := y\<rparr>, w1) \<noteq> None"
        by auto
      then obtain res' where
        res1: "drain Read fuel k (m1\<lparr>readers := x, length_mr := y\<rparr>, w1) = Some res'"
        by blast
      with ih Some have res2: "fst res' = fst res" by simp
      note res' = res1 res2
      obtain ds e2 s2 where "res = ((ds, e2), s2)" by (metis prod.exhaust)
      moreover obtain ds' e2' s2' where "res' = ((ds', e2'), s2')" by (metis prod.exhaust)
      ultimately show ?thesis using r r' None Some res' by simp
    qed
  next
    case (Some a)
    with r r' show ?thesis by simp
  qed
qed

lemma drain_Body_Read_frame:
  "map_option fst (drain Body_Read fuel k (m\<lparr>readers := x, length_mr := y\<rparr>, w))
       = map_option fst (drain Body_Read fuel k (m, w))"
proof (induction fuel arbitrary: m w)
  case 0
  show ?case by simp
next
  case (Suc fuel)
  obtain d e m1 w1 where r: "Body_Read k (m, w) = ((d, e), (m1, w1))" by (metis prod.exhaust)
  from Body_Read_frame [where k = k and m = m and x = x and y = y and w = w] r
  have r': "Body_Read k (m\<lparr>readers := x, length_mr := y\<rparr>, w)
      = ((d, e), (m1\<lparr>readers := x, length_mr := y\<rparr>, w1))" by simp
  note ih = Suc.IH [of m1 w1]
  show ?case
  proof (cases e)
    case None
    show ?thesis
    proof (cases "drain Body_Read fuel k (m1, w1)")
      case dn: None
      with ih have "drain Body_Read fuel k (m1\<lparr>readers := x, length_mr := y\<rparr>, w1) = None" by simp
      with dn r r' None show ?thesis by simp
    next
      case (Some res)
      with ih have "drain Body_Read fuel k (m1\<lparr>readers := x, length_mr := y\<rparr>, w1) \<noteq> None"
        by auto
      then obtain res' where
        res1: "drain Body_Read fuel k (m1\<lparr>readers := x, length_mr := y\<rparr>, w1) = Some res'"
        by blast
      with ih Some have res2: "fst res' = fst res" by simp
      note res' = res1 res2
      obtain ds e2 s2 where "res = ((ds, e2), s2)" by (metis prod.exhaust)
      moreover obtain ds' e2' s2' where "res' = ((ds', e2'), s2')" by (metis prod.exhaust)
      ultimately show ?thesis using r r' None Some res' by simp
    qed
  next
    case (Some a)
    with r r' show ?thesis by simp
  qed
qed

lemma AddReader_after_build:
  assumes "readers m \<noteq> []"
  shows "fst (AddReader r n m) = None"
    "multiReader (snd (AddReader r n m)) = multiReader m"
    "count (snd (AddReader r n m)) = count m"
    "length_mr (snd (AddReader r n m)) = int64 (length_mr m + n)"
    "contentType (snd (AddReader r n m)) = contentType m"
    "snd (AddReader r n m) = m\<lparr>readers := butlast (readers m) @ [r, last (readers m)],
        length_mr := int64 (length_mr m + n)\<rparr>"
  using assms by (simp_all add: AddReader_nonempty)

lemma example_built:
  "run [AddReaderC 0 3, GetMultiReaderC] (New [CHR 0x01] example_world) =
     (\<lparr>contentType = ''multipart/form-data; boundary=01'', boundary = ''01'',
       writer = Some \<lparr>target = 2, wboundary = ''01'', lastpart = False\<rparr>,
       readers = [2, 0, 3], length_mr = 13, multiReader = Some [2, 0, 3], count = 0\<rparr>,
      \<lparr>heap = (\<lambda>a. None)(0 \<mapsto> BytesReader ''abc'', 1 \<mapsto> BytesReader ''de'',
                2 \<mapsto> BytesBuffer [], 3 \<mapsto> BytesReader (CRLF @ ''--01--'' @ CRLF)),
       nxt = 4, files = (\<lambda>p. None)(''a.txt'' \<mapsto> ''hello'')\<rparr>)"
  using run_snoc [of "[AddReaderC 0 3]" GetMultiReaderC "New [CHR 0x01] example_world"]
  by (simp add: example_appended GetMultiReader_def)





text \<open>
  C10 (as amended): \<^verbatim>\<open>Read\<close>, \<^verbatim>\<open>GetMultiReader\<close> and \<^verbatim>\<open>SetupRequest\<close> build the multi-reader.
  Once it is built, \<^verbatim>\<open>AddReader\<close> (on a slice that is not empty) returns without an error
  and leaves the bytes of the stream as they were, read through \<^verbatim>\<open>Read\<close> or through the
  request's body, yet adds the declared length to \<open>length_mr\<close> in \<^verbatim>\<open>int64\<close>;
  \<^verbatim>\<open>SetupRequest\<close> afterwards, on a request whose header map is not nil, sets
  \<^verbatim>\<open>ContentLength\<close> to that sum. \<^verbatim>\<open>ContentLength\<close> is larger than the number of bytes the
  body delivers when the declared length is positive and the stored length was not below
  the number of bytes the stream holds (the sum staying below \<open>2^63\<close>).
\<close>

theorem late_append_inflates_ContentLength:
  "multiReader (fst (snd (Read k0 s0))) \<noteq> None
   \<and> multiReader (GetMultiReader m0) \<noteq> None
   \<and> multiReader (snd (snd (SetupRequest req m0))) \<noteq> None
   \<and> (multiReader m \<noteq> None \<and> readers m \<noteq> [] \<longrightarrow>
     fst (AddReader r n m) = None
     \<and> map_option fst (drain Read fuel k (snd (AddReader r n m), w))
         = map_option fst (drain Read fuel k (m, w))
     \<and> map_option fst (drain Body_Read fuel k (snd (snd (SetupRequest req (snd (AddReader r n m)))), w))
         = map_option fst (drain Body_Read fuel k (m, w))
     \<and> length_mr (snd (AddReader r n m)) = int64 (length_mr m + n)
     \<and> (Header req \<noteq> None \<longrightarrow>
          fst (SetupRequest req (snd (AddReader r n m))) = None
          \<and> ContentLength (fst (snd (SetupRequest req (snd (AddReader r n m)))))
              = int64 (length_mr m + n))
     \<and> (Header req \<noteq> None \<and> 0 < k \<and> stream_ok (m, w) \<and> length (stream_of (m, w)) < fuel
          \<and> int (length (stream_of (m, w))) \<le> length_mr m \<and> 0 < n \<and> length_mr m + n < 2 ^ 63 \<longrightarrow>
          map_option fst (drain Body_Read fuel k (snd (snd (SetupRequest req (snd (AddReader r n m)))), w))
            = Some (stream_of (m, w), EOF)
          \<and> int (length (stream_of (m, w)))
            < ContentLength (fst (snd (SetupRequest req (snd (AddReader r n m)))))))"
proof -
  have b1: "multiReader (GetMultiReader m0) \<noteq> None"
    using GetMultiReader_Some [of m0] by auto
  then have b2: "multiReader (snd (snd (SetupRequest req m0))) \<noteq> None"
    by (simp add: SetupRequest_struct)
  have main: "multiReader m \<noteq> None \<and> readers m \<noteq> [] \<longrightarrow>
     fst (AddReader r n m) = None
     \<and> map_option fst (drain Read fuel k (snd (AddReader r n m), w))
         = map_option fst (drain Read fuel k (m, w))
     \<and> map_option fst (drain Body_Read fuel k (snd (snd (SetupRequest req (snd (AddReader r n m)))), w))
         = map_option fst (drain Body_Read fuel k (m, w))
     \<and> length_mr (snd (AddReader r n m)) = int64 (length_mr m + n)
     \<and> (Header req \<noteq> None \<longrightarrow>
          fst (SetupRequest req (snd (AddReader r n m))) = None
          \<and> ContentLength (fst (snd (SetupRequest req (snd (AddReader r n m)))))
              = int64 (length_mr m + n))
     \<and> (Header req \<noteq> None \<and> 0 < k \<and> stream_ok (m, w) \<and> length (stream_of (m, w)) < fuel
          \<and> int (length (stream_of (m, w))) \<le> length_mr m \<and> 0 < n \<and> length_mr m + n < 2 ^ 63 \<longrightarrow>
          map_option fst (drain Body_Read fuel k (snd (snd (SetupRequest req (snd (AddReader r n m)))), w))
            = Some (stream_of (m, w), EOF)
          \<and> int (length (stream_of (m, w)))
            < ContentLength (fst (snd (SetupRequest req (snd (AddReader r n m))))))"
  proof
    assume h: "multiReader m \<noteq> None \<and> readers m \<noteq> []"
    from h have ne: "readers m \<noteq> []" by simp
    note a = AddReader_after_build [OF ne, of r n]
    have built: "multiReader (snd (AddReader r n m)) \<noteq> None" using a(2) h by simp
    note su = SetupRequest_built [OF built, of req]
    have 1: "map_option fst (drain Read fuel k (snd (AddReader r n m), w))
         = map_option fst (drain Read fuel k (m, w))"
      unfolding a(6) using h by (simp add: drain_Read_frame)
    have 2: "map_option fst (drain Body_Read fuel k (snd (snd (SetupRequest req (snd (AddReader r n m)))), w))
         = map_option fst (drain Body_Read fuel k (m, w))"
      unfolding su unfolding a(6) by (simp add: drain_Body_Read_frame)
    have 3: "Header req \<noteq> None \<longrightarrow>
          fst (SetupRequest req (snd (AddReader r n m))) = None
          \<and> ContentLength (fst (snd (SetupRequest req (snd (AddReader r n m)))))
              = int64 (length_mr m + n)"
      using SetupRequest_ContentLength [of req "snd (AddReader r n m)"] a(4) by simp
    have 4: "Header req \<noteq> None \<and> 0 < k \<and> stream_ok (m, w) \<and> length (stream_of (m, w)) < fuel
          \<and> int (length (stream_of (m, w))) \<le> length_mr m \<and> 0 < n \<and> length_mr m + n < 2 ^ 63 \<longrightarrow>
          map_option fst (drain Body_Read fuel k (snd (snd (SetupRequest req (snd (AddReader r n m)))), w))
            = Some (stream_of (m, w), EOF)
          \<and> int (length (stream_of (m, w)))
            < ContentLength (fst (snd (SetupRequest req (snd (AddReader r n m)))))"
    proof
      assume g: "Header req \<noteq> None \<and> 0 < k \<and> stream_ok (m, w) \<and> length (stream_of (m, w)) < fuel
          \<and> int (length (stream_of (m, w))) \<le> length_mr m \<and> 0 < n \<and> length_mr m + n < 2 ^ 63"
      then have "int64 (length_mr m + n) = length_mr m + n"
        by (intro int64_id) auto
      with 3 g have lt: "int (length (stream_of (m, w)))
            < ContentLength (fst (snd (SetupRequest req (snd (AddReader r n m)))))" by simp
      from g h drain_Body_Read_stream [of k "(m, w)" fuel]
      have "map_option fst (drain Body_Read fuel k (m, w)) = Some (stream_of (m, w), EOF)"
        by auto
      with 2 lt show "map_option fst (drain Body_Read fuel k (snd (snd (SetupRequest req (snd (AddReader r n m)))), w))
            = Some (stream_of (m, w), EOF)
          \<and> int (length (stream_of (m, w)))
            < ContentLength (fst (snd (SetupRequest req (snd (AddReader r n m)))))" by simp
    qed
    from a(1) 1 2 a(4) 3 4
    show "fst (AddReader r n m) = None
     \<and> map_option fst (drain Read fuel k (snd (AddReader r n m), w))
         = map_option fst (drain Read fuel k (m, w))
     \<and> map_option fst (drain Body_Read fuel k (snd (snd (SetupRequest req (snd (AddReader r n m)))), w))
         = map_option fst (drain Body_Read fuel k (m, w))
     \<and> length_mr (snd (AddReader r n m)) = int64 (length_mr m + n)
     \<and> (Header req \<noteq> None \<longrightarrow>
          fst (SetupRequest req (snd (AddReader r n m))) = None
          \<and> ContentLength (fst (snd (SetupRequest req (snd (AddReader r n m)))))
              = int64 (length_mr m + n))
     \<and> (Header req \<noteq> None \<and> 0 < k \<and> stream_ok (m, w) \<and> length (stream_of (m, w)) < fuel
          \<and> int (length (stream_of (m, w))) \<le> length_mr m \<and> 0 < n \<and> length_mr m + n < 2 ^ 63 \<longrightarrow>
          map_option fst (drain Body_Read fuel k (snd (snd (SetupRequest req (snd (AddReader r n m)))), w))
            = Some (stream_of (m, w), EOF)
          \<and> int (length (stream_of (m, w)))
            < ContentLength (fst (snd (SetupRequest req (snd (AddReader r n m))))))"
      by blast
  qed
  from Read_multiReader [of k0 s0] b1 b2 main show ?thesis by blast
qed

theorem late_append_inflates_ContentLength_witness:
  "fst (AddReader 1 2 (fst (run [AddReaderC 0 3, GetMultiReaderC] (New [CHR 0x01] example_world)))) = None
   \<and> fst (SetupRequest \<lparr>Body = None, Header = Some [], ContentLength = 0\<rparr>
        (snd (AddReader 1 2 (fst (run [AddReaderC 0 3, GetMultiReaderC] (New [CHR 0x01] example_world))))))
       = None
   \<and> ContentLength (fst (snd (SetupRequest \<lparr>Body = None, Header = Some [], ContentLength = 0\<rparr>
        (snd (AddReader 1 2 (fst (run [AddReaderC 0 3, GetMultiReaderC] (New [CHR 0x01] example_world))))))))
       = 15
   \<and> map_option fst (drain Body_Read 14 4
        (snd (snd (SetupRequest \<lparr>Body = None, Header = Some [], ContentLength = 0\<rparr>
           (snd (AddReader 1 2 (fst (run [AddReaderC 0 3, GetMultiReaderC] (New [CHR 0x01] example_world))))))),
         snd (run [AddReaderC 0 3, GetMultiReaderC] (New [CHR 0x01] example_world))))
       = Some (''abc'' @ CRLF @ ''--01--'' @ CRLF, EOF)
   \<and> length (''abc'' @ CRLF @ ''--01--'' @ CRLF) = 13"
proof -
  define s where "s = run [AddReaderC 0 3, GetMultiReaderC] (New [CHR 0x01] example_world)"
  define req where "req = \<lparr>Body = None, Header = Some [], ContentLength = 0\<rparr>"
  have lc: "length CRLF = 2" by (simp add: CRLF_def)
  have hd: "Header req \<noteq> None" by (simp add: req_def)
  have m: "multiReader (fst s) \<noteq> None \<and> readers (fst s) \<noteq> []"
    by (simp add: s_def example_built)
  have ok: "stream_ok s"
    by (simp add: s_def example_built stream_ok_def good_def readable_at_def pending_def)
  have st: "stream_of s = ''abc'' @ CRLF @ ''--01--'' @ CRLF"
    by (simp add: s_def example_built stream_of_def content_of_def content_at_def pending_def)
  have l: "length_mr (fst s) = 13" by (simp add: s_def example_built)
  have pre: "Header req \<noteq> None \<and> (0::nat) < 4 \<and> stream_ok (fst s, snd s)
          \<and> length (stream_of (fst s, snd s)) < 14
          \<and> int (length (stream_of (fst s, snd s))) \<le> length_mr (fst s) \<and> (0::int) < 2
          \<and> length_mr (fst s) + 2 < 2 ^ 63"
    using ok hd by (simp add: st l lc)
  from late_append_inflates_ContentLength [where m = "fst s" and w = "snd s" and r = 1 and n = 2
      and k = 4 and fuel = 14 and req = req and ?m0.0 = "fst s" and ?k0.0 = 4 and ?s0.0 = s] m pre hd
  have "fst (AddReader 1 2 (fst s)) = None"
    "fst (SetupRequest req (snd (AddReader 1 2 (fst s)))) = None"
    "ContentLength (fst (snd (SetupRequest req (snd (AddReader 1 2 (fst s)))))) = int64 (length_mr (fst s) + 2)"
    "map_option fst (drain Body_Read 14 4 (snd (snd (SetupRequest req (snd (AddReader 1 2 (fst s))))), snd s))
       = Some (stream_of (fst s, snd s), EOF)"
    by blast+
  then have "fst (AddReader 1 2 (fst s)) = None"
    "fst (SetupRequest req (snd (AddReader 1 2 (fst s)))) = None"
    "ContentLength (fst (snd (SetupRequest req (snd (AddReader 1 2 (fst s)))))) = 15"
    "map_option fst (drain Body_Read 14 4 (snd (snd (SetupRequest req (snd (AddReader 1 2 (fst s))))), snd s))
       = Some (''abc'' @ CRLF @ ''--01--'' @ CRLF, EOF)"
    by (simp_all add: st l int64_def)
  note f = this [unfolded s_def req_def]
  show ?thesis using f by (simp add: lc)
qed

text \<open>
  C10 as stated has \<^verbatim>\<open>ContentLength\<close> larger than the body after every late append. A
  reader appended late with the declared length 0 leaves \<^verbatim>\<open>ContentLength\<close> at 13 for a
  body of 13 bytes.
\<close>

theorem late_append_of_length_zero_counterexample:
  "multiReader (fst (run [AddReaderC 0 3, GetMultiReaderC] (New [CHR 0x01] example_world)))
     = Some [2, 0, 3]
   \<and> AddReader 1 0 (fst (run [AddReaderC 0 3, GetMultiReaderC] (New [CHR 0x01] example_world)))
     = (None, (fst (run [AddReaderC 0 3, GetMultiReaderC] (New [CHR 0x01] example_world)))
          \<lparr>readers := [2, 0, 1, 3], length_mr := 13\<rparr>)
   \<and> fst (SetupRequest \<lparr>Body = None, Header = Some [], ContentLength = 0\<rparr>
        (snd (AddReader 1 0 (fst (run [AddReaderC 0 3, GetMultiReaderC] (New [CHR 0x01] example_world))))))
       = None
   \<and> ContentLength (fst (snd (SetupRequest \<lparr>Body = None, Header = Some [], ContentLength = 0\<rparr>
        (snd (AddReader 1 0 (fst (run [AddReaderC 0 3, GetMultiReaderC] (New [CHR 0x01] example_world))))))))
       = 13
   \<and> map_option fst (drain Body_Read 14 4
        (snd (snd (SetupRequest \<lparr>Body = None, Header = Some [], ContentLength = 0\<rparr>
           (snd (AddReader 1 0 (fst (run [AddReaderC 0 3, GetMultiReaderC] (New [CHR 0x01] example_world))))))),
         snd (run [AddReaderC 0 3, GetMultiReaderC] (New [CHR 0x01] example_world))))
       = Some (''abc'' @ CRLF @ ''--01--'' @ CRLF, EOF)
   \<and> length (''abc'' @ CRLF @ ''--01--'' @ CRLF) = 13"
proof -
  define s where "s = run [AddReaderC 0 3, GetMultiReaderC] (New [CHR 0x01] example_world)"
  define req where "req = \<lparr>Body = None, Header = Some [], ContentLength = 0\<rparr>"
  define m' where "m' = (fst s)\<lparr>readers := [2, 0, 1, 3], length_mr := 13\<rparr>"
  have lc: "length CRLF = 2" by (simp add: CRLF_def)
  have 1: "multiReader (fst s) = Some [2, 0, 3]" by (simp add: s_def example_built)
  have 2: "AddReader 1 0 (fst s) = (None, m')"
    by (simp add: s_def m'_def example_built AddReader_def int64_def)
  have 3: "fst (SetupRequest req m') = None"
    "ContentLength (fst (snd (SetupRequest req m'))) = 13"
    using SetupRequest_ContentLength [of req m'] by (simp_all add: req_def m'_def)
  have ok: "stream_ok (m', snd s)"
    by (simp add: m'_def s_def example_built stream_ok_def good_def readable_at_def pending_def)
  have st: "stream_of (m', snd s) = ''abc'' @ CRLF @ ''--01--'' @ CRLF"
    by (simp add: m'_def s_def example_built stream_of_def content_of_def content_at_def pending_def)
  have "length (stream_of (m', snd s)) < 14" unfolding st by (simp add: lc)
  from SetupRequest_body [OF ok _ this, of 4 req]
  have 4: "map_option fst (drain Body_Read 14 4 (snd (snd (SetupRequest req m')), snd s))
       = Some (''abc'' @ CRLF @ ''--01--'' @ CRLF, EOF)"
    by (simp add: st)
  have 5: "length (''abc'' @ CRLF @ ''--01--'' @ CRLF) = 13" by (simp add: lc)
  have sn: "snd (AddReader 1 0 (fst s)) = m'" by (simp only: 2 snd_conv)
  from 1 2 3 4 5 show ?thesis
    unfolding s_def [symmetric] req_def [symmetric] sn m'_def [symmetric] by blast
qed

section \<open>SetBoundary\<close>

lemma boundary_char_ok_CR_LF:
  "\<not> boundary_char_ok e (CHR 0x0D)" "\<not> boundary_char_ok e (CHR 0x0A)"
  by (simp_all add: boundary_char_ok_def)

lemma boundary_chars_ok_no_CR_LF:
  "CHR 0x0D \<in> set t \<or> CHR 0x0A \<in> set t \<Longrightarrow> \<not> boundary_chars_ok t"
  by (induction t) (auto simp: boundary_char_ok_CR_LF)

lemma SetBoundary_fields:
  "contentType (snd (SetBoundary t m)) = contentType m"
  "boundary (snd (SetBoundary t m)) = boundary m"
  "readers (snd (SetBoundary t m)) = readers m"
  "multiReader (snd (SetBoundary t m)) = multiReader m"
  "length_mr (snd (SetBoundary t m)) = length_mr m"
  by (simp_all add: SetBoundary_def split: option.splits prod.splits)

lemma Read_writer: "writer (fst (snd (Read k (m, w)))) = writer m"
  by (simp add: Read_def Let_def GetMultiReader_def split: option.splits prod.splits)

lemma SetBoundary_result:
  assumes "writer m = Some wr"
  shows "SetBoundary t m =
     (if lastpart wr then (Some ErrSetBoundaryAfterWrite, m)
      else if length t < 1 \<or> 70 < length t then (Some ErrInvalidBoundaryLength, m)
      else if \<not> boundary_chars_ok t then (Some ErrInvalidBoundaryCharacter, m)
      else (None, m\<lparr>writer := Some (wr\<lparr>wboundary := t\<rparr>)\<rparr>))"
proof -
  have "m\<lparr>writer := Some wr\<rparr> = m" using assms by simp
  then show ?thesis using assms by (simp add: SetBoundary_def Writer_SetBoundary_def)
qed

text \<open>
  C5 (as amended), for an assembler whose writer is set, as \<^verbatim>\<open>New\<close> leaves it:
  \<^verbatim>\<open>SetBoundary\<close> fails, and leaves the assembler with its boundary and content type as
  it was, when a part has been started on the writer or the token is not a MIME boundary
  (length 1 to 70, allowed characters; a token with CR or LF always fails); otherwise it
  succeeds and the writer's boundary is the new token. Whether a \<^verbatim>\<open>Read\<close> has occurred
  makes no difference to the outcome.
\<close>

theorem SetBoundary_fails_or_sets_the_writer:
  "writer m = Some wr \<longrightarrow>
     (lastpart wr \<or> length t < 1 \<or> 70 < length t \<or> \<not> boundary_chars_ok t \<longrightarrow>
        fst (SetBoundary t m) \<noteq> None \<and> snd (SetBoundary t m) = m)
     \<and> (CHR 0x0D \<in> set t \<or> CHR 0x0A \<in> set t \<longrightarrow>
        fst (SetBoundary t m) \<noteq> None \<and> snd (SetBoundary t m) = m)
     \<and> (\<not> lastpart wr \<and> 1 \<le> length t \<and> length t \<le> 70 \<and> boundary_chars_ok t \<longrightarrow>
        fst (SetBoundary t m) = None
        \<and> map_option wboundary (writer (snd (SetBoundary t m))) = Some t)
     \<and> fst (SetBoundary t (fst (snd (Read k (m, w))))) = fst (SetBoundary t m)"
proof
  assume wr: "writer m = Some wr"
  note r = SetBoundary_result [OF wr, of t]
  have 1: "lastpart wr \<or> length t < 1 \<or> 70 < length t \<or> \<not> boundary_chars_ok t \<longrightarrow>
        fst (SetBoundary t m) \<noteq> None \<and> snd (SetBoundary t m) = m"
    by (simp add: r)
  have 2: "CHR 0x0D \<in> set t \<or> CHR 0x0A \<in> set t \<longrightarrow>
        fst (SetBoundary t m) \<noteq> None \<and> snd (SetBoundary t m) = m"
    using boundary_chars_ok_no_CR_LF [of t] 1 by blast
  have 3: "\<not> lastpart wr \<and> 1 \<le> length t \<and> length t \<le> 70 \<and> boundary_chars_ok t \<longrightarrow>
        fst (SetBoundary t m) = None
        \<and> map_option wboundary (writer (snd (SetBoundary t m))) = Some t"
    by (auto simp: r)
  have "writer (fst (snd (Read k (m, w)))) = Some wr" using wr by (simp add: Read_writer)
  from SetBoundary_result [OF this, of t] r
  have 4: "fst (SetBoundary t (fst (snd (Read k (m, w))))) = fst (SetBoundary t m)"
    by simp
  from 1 2 3 4 show "(lastpart wr \<or> length t < 1 \<or> 70 < length t \<or> \<not> boundary_chars_ok t \<longrightarrow>
        fst (SetBoundary t m) \<noteq> None \<and> snd (SetBoundary t m) = m)
     \<and> (CHR 0x0D \<in> set t \<or> CHR 0x0A \<in> set t \<longrightarrow>
        fst (SetBoundary t m) \<noteq> None \<and> snd (SetBoundary t m) = m)
     \<and> (\<not> lastpart wr \<and> 1 \<le> length t \<and> length t \<le> 70 \<and> boundary_chars_ok t \<longrightarrow>
        fst (SetBoundary t m) = None
        \<and> map_option wboundary (writer (snd (SetBoundary t m))) = Some t)
     \<and> fst (SetBoundary t (fst (snd (Read k (m, w))))) = fst (SetBoundary t m)"
    by blast
qed

lemma example_New:
  "New [CHR 0x01] example_world =
     (\<lparr>contentType = ''multipart/form-data; boundary=01'', boundary = ''01'',
       writer = Some \<lparr>target = 2, wboundary = ''01'', lastpart = False\<rparr>,
       readers = [2, 3], length_mr = 10, multiReader = None, count = 0\<rparr>,
      \<lparr>heap = (\<lambda>a. None)(0 \<mapsto> BytesReader ''abc'', 1 \<mapsto> BytesReader ''de'',
                2 \<mapsto> BytesBuffer [], 3 \<mapsto> BytesReader (CRLF @ ''--01--'' @ CRLF)),
       nxt = 4, files = (\<lambda>p. None)(''a.txt'' \<mapsto> ''hello'')\<rparr>)"
  by (simp add: New_def alloc_def Let_def example_world_def NewWriter_def
      FormDataContentType_def randomBoundary_def hex_byte_def hexdigit_def tspecials_def
      formClose_def CRLF_def int64_def)

theorem SetBoundary_fails_or_sets_the_writer_witness:
  "fst (SetBoundary (''ab'' @ CRLF) (fst (New [CHR 0x01] example_world))) \<noteq> None
   \<and> snd (SetBoundary (''ab'' @ CRLF) (fst (New [CHR 0x01] example_world)))
       = fst (New [CHR 0x01] example_world)
   \<and> fst (SetBoundary ''abc'' (fst (New [CHR 0x01] example_world))) = None
   \<and> map_option wboundary (writer (snd (SetBoundary ''abc'' (fst (New [CHR 0x01] example_world)))))
       = Some ''abc''
   \<and> fst (SetBoundary ''abc'' (fst (snd (Read 4 (New [CHR 0x01] example_world))))) = None
   \<and> fst (SetBoundary ''abc'' (fst (New [CHR 0x01] example_world)
         \<lparr>writer := Some \<lparr>target = 2, wboundary = ''01'', lastpart = True\<rparr>\<rparr>))
       \<noteq> None
   \<and> snd (SetBoundary ''abc'' (fst (New [CHR 0x01] example_world)
         \<lparr>writer := Some \<lparr>target = 2, wboundary = ''01'', lastpart = True\<rparr>\<rparr>))
       = fst (New [CHR 0x01] example_world)
         \<lparr>writer := Some \<lparr>target = 2, wboundary = ''01'', lastpart = True\<rparr>\<rparr>"
proof -
  define m where "m = fst (New [CHR 0x01] example_world)"
  define w where "w = snd (New [CHR 0x01] example_world)"
  define wr where "wr = \<lparr>target = 2, wboundary = ''01'', lastpart = False\<rparr>"
  define wr' where "wr' = \<lparr>target = 2, wboundary = ''01'', lastpart = True\<rparr>"
  have mw: "New [CHR 0x01] example_world = (m, w)" by (simp add: m_def w_def)
  have wm: "writer m = Some wr" by (simp add: m_def wr_def example_New)
  have wm': "writer (m\<lparr>writer := Some wr'\<rparr>) = Some wr'" by simp
  have ok: "boundary_chars_ok ''abc''" by (simp add: boundary_char_ok_def)
  have cr: "CHR 0x0D \<in> set (''ab'' @ CRLF)" by (simp add: CRLF_def)
  have lp: "\<not> lastpart wr" "lastpart wr'" by (simp_all add: wr_def wr'_def)
  from SetBoundary_fails_or_sets_the_writer [where m = m and wr = wr and t = "''ab'' @ CRLF"] wm cr
  have 1: "fst (SetBoundary (''ab'' @ CRLF) m) \<noteq> None" "snd (SetBoundary (''ab'' @ CRLF) m) = m"
    by blast+
  from SetBoundary_fails_or_sets_the_writer [where m = m and wr = wr and t = "''abc''"
      and k = 4 and w = w] wm ok lp(1)
  have 2: "fst (SetBoundary ''abc'' m) = None"
    "map_option wboundary (writer (snd (SetBoundary ''abc'' m))) = Some ''abc''"
    "fst (SetBoundary ''abc'' (fst (snd (Read 4 (m, w))))) = None"
    by simp_all
  from SetBoundary_fails_or_sets_the_writer [where m = "m\<lparr>writer := Some wr'\<rparr>" and wr = wr'
      and t = "''abc''"] wm' lp(2)
  have 3: "fst (SetBoundary ''abc'' (m\<lparr>writer := Some wr'\<rparr>)) \<noteq> None"
    "snd (SetBoundary ''abc'' (m\<lparr>writer := Some wr'\<rparr>)) = m\<lparr>writer := Some wr'\<rparr>"
    by blast+
  from 1 2 3 show ?thesis unfolding mw fst_conv wr'_def by blast
qed

text \<open>
  C5 as stated wants \<^verbatim>\<open>SetBoundary\<close> to fail once a \<^verbatim>\<open>Read\<close> has occurred. After a \<^verbatim>\<open>Read\<close>
  that has delivered four bytes of the stream, a valid token is accepted.
\<close>

theorem SetBoundary_after_Read_counterexample:
  "fst (fst (Read 4 (New [CHR 0x01] example_world))) = CRLF @ ''--''
   \<and> snd (fst (Read 4 (New [CHR 0x01] example_world))) = None
   \<and> multiReader (fst (snd (Read 4 (New [CHR 0x01] example_world)))) \<noteq> None
   \<and> fst (SetBoundary ''abc'' (fst (snd (Read 4 (New [CHR 0x01] example_world))))) = None
   \<and> map_option wboundary
        (writer (snd (SetBoundary ''abc'' (fst (snd (Read 4 (New [CHR 0x01] example_world)))))))
       = Some ''abc''"
proof -
  define m where "m = fst (New [CHR 0x01] example_world)"
  define w where "w = snd (New [CHR 0x01] example_world)"
  define wr where "wr = \<lparr>target = 2, wboundary = ''01'', lastpart = False\<rparr>"
  have wm: "writer m = Some wr" by (simp add: m_def wr_def example_New)
  have ok: "boundary_chars_ok ''abc''" by (simp add: boundary_char_ok_def)
  have 1: "fst (fst (Read 4 (m, w))) = CRLF @ ''--''" "snd (fst (Read 4 (m, w))) = None"
    by (simp_all add: m_def w_def example_New Read_def GetMultiReader_def Let_def CRLF_def)
  have 2: "multiReader (fst (snd (Read 4 (m, w)))) \<noteq> None" by (rule Read_multiReader)
  have "writer (fst (snd (Read 4 (m, w)))) = Some wr" using wm by (simp add: Read_writer)
  from SetBoundary_result [OF this, of "''abc''"] ok
  have 3: "fst (SetBoundary ''abc'' (fst (snd (Read 4 (m, w))))) = None"
    "map_option wboundary (writer (snd (SetBoundary ''abc'' (fst (snd (Read 4 (m, w)))))))
       = Some ''abc''"
    by (simp_all add: wr_def)
  have mw: "New [CHR 0x01] example_world = (m, w)" by (simp add: m_def w_def)
  from 1 2 3 show ?thesis unfolding mw by blast
qed

text \<open>
  What a successful \<^verbatim>\<open>SetBoundary\<close> leaves behind in the example: the writer has the new
  token, while the stored boundary, the content type and the closing line of the stream
  still carry the token chosen by \<^verbatim>\<open>New\<close>. The struct's \<^verbatim>\<open>boundary\<close> and \<^verbatim>\<open>contentType\<close> and the
  closing reader are assigned in \<^verbatim>\<open>New\<close> only.
\<close>

lemma SetBoundary_leaves_stored_token:
  "fst (SetBoundary ''abc'' (fst (New [CHR 0x01] example_world))) = None
   \<and> ContentType (snd (SetBoundary ''abc'' (fst (New [CHR 0x01] example_world))))
       = ''multipart/form-data; boundary=01''
   \<and> Boundary (snd (SetBoundary ''abc'' (fst (New [CHR 0x01] example_world)))) = ''01''
   \<and> map_option fst (drain Read 11 4
        (snd (SetBoundary ''abc'' (fst (New [CHR 0x01] example_world))), snd (New [CHR 0x01] example_world)))
       = Some (CRLF @ ''--01--'' @ CRLF, EOF)"
proof -
  define m where "m = fst (New [CHR 0x01] example_world)"
  define w where "w = snd (New [CHR 0x01] example_world)"
  define wr where "wr = \<lparr>target = 2, wboundary = ''01'', lastpart = False\<rparr>"
  have wm: "writer m = Some wr" by (simp add: m_def wr_def example_New)
  have ok: "boundary_chars_ok ''abc''" by (simp add: boundary_char_ok_def)
  from SetBoundary_result [OF wm, of "''abc''"] ok
  have 3: "fst (SetBoundary ''abc'' m) = None"
    by (simp add: wr_def)
  have 4: "ContentType (snd (SetBoundary ''abc'' m)) = ''multipart/form-data; boundary=01''"
    "Boundary (snd (SetBoundary ''abc'' m)) = ''01''"
    by (simp_all add: ContentType_def Boundary_def SetBoundary_fields m_def example_New)
  have so: "stream_ok (snd (SetBoundary ''abc'' m), w)"
    "stream_of (snd (SetBoundary ''abc'' m), w) = CRLF @ ''--01--'' @ CRLF"
    by (simp_all add: SetBoundary_fields m_def w_def example_New stream_ok_def stream_of_def
        pending_def good_def readable_at_def content_of_def content_at_def)
  have "length (stream_of (snd (SetBoundary ''abc'' m), w)) < 11"
    by (simp add: so CRLF_def)
  from drain_Read_output [OF _ so(1) this, of 4]
  have 5: "map_option fst (drain Read 11 4 (snd (SetBoundary ''abc'' m), w))
       = Some (CRLF @ ''--01--'' @ CRLF, EOF)"
    by (simp add: so)
  have mw: "New [CHR 0x01] example_world = (m, w)" by (simp add: m_def w_def)
  from 3 4 5 show ?thesis unfolding mw by simp
qed

section \<open>Files\<close>

lemma example_header_length: "length (form_header ''01'' ''file'' ''a.txt'') = 71"
  by (simp add: form_header_def CRLF_def DQUOTE_def)

lemma example_header_nonempty: "form_header ''01'' ''file'' ''a.txt'' \<noteq> []"
  using example_header_length by auto

lemma example_WriteFile:
  "WriteFile ''k'' ''a.txt'' (New [CHR 0x01] example_world) =
     (None,
      \<lparr>contentType = ''multipart/form-data; boundary=01'', boundary = ''01'',
       writer = Some \<lparr>target = 2, wboundary = ''01'', lastpart = False\<rparr>,
       readers = [2, 5, 4, 3], length_mr = 86, multiReader = None, count = 0\<rparr>,
      \<lparr>heap = (\<lambda>a. None)(0 \<mapsto> BytesReader ''abc'', 1 \<mapsto> BytesReader ''de'',
                2 \<mapsto> BytesBuffer [], 3 \<mapsto> BytesReader (CRLF @ ''--01--'' @ CRLF),
                4 \<mapsto> OsFile ''a.txt'' ''hello'' 0 True,
                5 \<mapsto> BytesReader (form_header ''01'' ''file'' ''a.txt'')),
       nxt = 6, files = (\<lambda>p. None)(''a.txt'' \<mapsto> ''hello'')\<rparr>)"
  by (simp add: example_New WriteFile_def os_Open_def alloc_def file_Stat_def file_Name_def
      add_form_def AddReader_def os_Close_def Let_def example_header_length int64_def
      fun_upd_twist)

lemma example_WriteFile_drain:
  "map_option fst (drain Read 3 100 (snd (WriteFile ''k'' ''a.txt'' (New [CHR 0x01] example_world))))
     = Some (form_header ''01'' ''file'' ''a.txt'', ErrClosed ''a.txt'')"
  by (simp add: example_WriteFile eval_nat_numeral Read_def GetMultiReader_def Let_def
      example_header_length example_header_nonempty)

lemma example_os_Open: "os_Open ''a.txt'' example_world = Inr (2, example_world_open)"
  by (simp add: os_Open_def example_world_open_def example_world_def alloc_def)

lemma example_AddFile:
  "AddFile 2 (New [CHR 0x01] example_world_open) =
    (None,
      \<lparr>contentType = ''multipart/form-data; boundary=01'', boundary = ''01'',
       writer = Some \<lparr>target = 3, wboundary = ''01'', lastpart = False\<rparr>,
       readers = [3, 5, 2, 4], length_mr = 86, multiReader = None, count = 0\<rparr>,
      \<lparr>heap = (\<lambda>a. None)(0 \<mapsto> BytesReader ''abc'', 1 \<mapsto> BytesReader ''de'',
                2 \<mapsto> OsFile ''a.txt'' ''hello'' 0 False,
                3 \<mapsto> BytesBuffer [], 4 \<mapsto> BytesReader (CRLF @ ''--01--'' @ CRLF),
                5 \<mapsto> BytesReader (form_header ''01'' ''file'' ''a.txt'')),
       nxt = 6, files = (\<lambda>p. None)(''a.txt'' \<mapsto> ''hello'')\<rparr>)"
  by (simp add: example_world_open_def example_world_def New_def NewWriter_def
      FormDataContentType_def randomBoundary_def
      hex_byte_def hexdigit_def tspecials_def formClose_def AddFile_def alloc_def
      file_Stat_def basename_def
      add_form_def AddReader_def Let_def example_header_length int64_def CRLF_def)

text \<open>
  C7 fails for \<^verbatim>\<open>WriteFile\<close>: its deferred \<^verbatim>\<open>fs.Close()\<close> closes the handle it has just put
  into \<open>readers\<close>, so the handle is closed when \<^verbatim>\<open>WriteFile\<close> returns and the stream
  ends with an error where the file's bytes should come. \<^verbatim>\<open>AddFile\<close>, given an open handle
  for the same file, leaves it open, and the stream delivers the file.
\<close>

theorem WriteFile_closes_the_appended_file:
  "fst (WriteFile ''k'' ''a.txt'' (New [CHR 0x01] example_world)) = None
   \<and> readers (fst (snd (WriteFile ''k'' ''a.txt'' (New [CHR 0x01] example_world)))) = [2, 5, 4, 3]
   \<and> heap (snd (snd (WriteFile ''k'' ''a.txt'' (New [CHR 0x01] example_world)))) 4
       = Some (OsFile ''a.txt'' ''hello'' 0 True)
   \<and> fst (Read 100 (snd (Read 100 (snd (WriteFile ''k'' ''a.txt'' (New [CHR 0x01] example_world))))))
       = ([], Some (ErrClosed ''a.txt''))
   \<and> map_option fst (drain Read 3 100 (snd (WriteFile ''k'' ''a.txt'' (New [CHR 0x01] example_world))))
       = Some (form_header ''01'' ''file'' ''a.txt'', ErrClosed ''a.txt'')
   \<and> os_Open ''a.txt'' example_world = Inr (2, example_world_open)
   \<and> fst (AddFile 2 (New [CHR 0x01] example_world_open)) = None
   \<and> heap (snd (snd (AddFile 2 (New [CHR 0x01] example_world_open)))) 2
       = Some (OsFile ''a.txt'' ''hello'' 0 False)
   \<and> map_option fst (drain Read 100 4 (snd (AddFile 2 (New [CHR 0x01] example_world_open))))
       = Some (form_header ''01'' ''file'' ''a.txt'' @ ''hello'' @ formClose ''01'', EOF)"
proof -
  have 1: "fst (WriteFile ''k'' ''a.txt'' (New [CHR 0x01] example_world)) = None"
    "readers (fst (snd (WriteFile ''k'' ''a.txt'' (New [CHR 0x01] example_world)))) = [2, 5, 4, 3]"
    "heap (snd (snd (WriteFile ''k'' ''a.txt'' (New [CHR 0x01] example_world)))) 4
       = Some (OsFile ''a.txt'' ''hello'' 0 True)"
    by (simp_all add: example_WriteFile)
  have 2: "fst (Read 100 (snd (Read 100 (snd (WriteFile ''k'' ''a.txt'' (New [CHR 0x01] example_world))))))
       = ([], Some (ErrClosed ''a.txt''))"
    by (simp add: example_WriteFile Read_def GetMultiReader_def Let_def
      example_header_length example_header_nonempty)
  have 3: "fst (AddFile 2 (New [CHR 0x01] example_world_open)) = None"
    "heap (snd (snd (AddFile 2 (New [CHR 0x01] example_world_open)))) 2
       = Some (OsFile ''a.txt'' ''hello'' 0 False)"
    by (simp_all add: example_AddFile)
  have so: "stream_ok (snd (AddFile 2 (New [CHR 0x01] example_world_open)))"
    "stream_of (snd (AddFile 2 (New [CHR 0x01] example_world_open)))
      = form_header ''01'' ''file'' ''a.txt'' @ ''hello'' @ formClose ''01''"
    by (simp_all add: example_AddFile stream_ok_def stream_of_def pending_def good_def readable_at_def
        content_of_def content_at_def formClose_def)
  have "length (stream_of (snd (AddFile 2 (New [CHR 0x01] example_world_open)))) < 100"
    by (simp add: so example_header_length formClose_def CRLF_def)
  from drain_Read_output [OF _ so(1) this, of 4]
  have 4: "map_option fst (drain Read 100 4 (snd (AddFile 2 (New [CHR 0x01] example_world_open))))
       = Some (form_header ''01'' ''file'' ''a.txt'' @ ''hello'' @ formClose ''01'', EOF)"
    by (simp add: so)
  from 1 2 3 4 example_os_Open example_WriteFile_drain show ?thesis by simp
qed

section \<open>The stream of a sequence of appends\<close>

lemma content_of_append: "content_of h (xs @ ys) = content_of h xs @ content_of h ys"
  by (simp add: content_of_def)

lemma content_of_single: "content_of h [a] = content_at h a"
  by (simp add: content_of_def)

lemma built_New: "built rnd w [] (New rnd w)"
  unfolding built_def
  by (simp add: New_fields New_heap New_readers content_of_def)

lemma built_AddReader:
  assumes b: "built rnd w cs (m, w')" and r: "r < nxt w" "readable_at (heap w) r"
    and fresh: "Some r \<notin> set (map source cs)"
    and c: "source c = Some r" "appended (randomBoundary rnd) w c = content_at (heap w) r"
      "declared (randomBoundary rnd) w c = n"
  shows "built rnd w (cs @ [c]) (snd (AddReader r n m), w')"
proof -
  from b obtain xs where xs: "readers m = nxt w # xs @ [Suc (nxt w)]" "distinct xs"
    "\<forall>a \<in> set xs. (a < nxt w \<and> Some a \<in> set (map source cs)) \<or> (nxt w + 2 \<le> a \<and> a < nxt w')"
    "list_all (readable_at (heap w')) xs"
    "content_of (heap w') xs = concat (map (appended (randomBoundary rnd) w) cs)"
    unfolding built_def by auto
  from b have fr: "\<forall>a. a < nxt w \<longrightarrow> heap w' a = heap w a"
    and rest: "multiReader m = None" "boundary m = randomBoundary rnd" "nxt w + 2 \<le> nxt w'"
      "files w' = files w"
      "heap w' (nxt w) = Some (BytesBuffer [])"
      "heap w' (Suc (nxt w)) = Some (BytesReader (formClose (randomBoundary rnd)))"
    and len: "length_mr m = int64 (int (length (formClose (randomBoundary rnd)))
                   + sum_list (map (declared (randomBoundary rnd) w) cs))"
    unfolding built_def by auto
  note a = AddReader_shape [OF xs(1), of r n]
  have hr: "heap w' r = heap w r" using fr r(1) by simp
  have notin: "r \<notin> set xs" using xs(3) fresh r(1) by auto
  have 1: "readers (snd (AddReader r n m)) = nxt w # (xs @ [r]) @ [Suc (nxt w)]"
    by (simp add: a)
  have 2: "distinct (xs @ [r])" using xs(2) notin by simp
  have 3: "\<forall>a \<in> set (xs @ [r]). (a < nxt w \<and> Some a \<in> set (map source (cs @ [c])))
                             \<or> (nxt w + 2 \<le> a \<and> a < nxt w')"
    using xs(3) r(1) c(1) by auto
  have 4: "list_all (readable_at (heap w')) (xs @ [r])"
    using xs(4) r(2) hr by (simp add: readable_at_def)
  have 5: "content_of (heap w') (xs @ [r])
      = concat (map (appended (randomBoundary rnd) w) (cs @ [c]))"
    using xs(5) hr c(2) by (simp add: content_of_append content_of_single content_at_def)
  have 6: "length_mr (snd (AddReader r n m))
      = int64 (int (length (formClose (randomBoundary rnd)))
                   + sum_list (map (declared (randomBoundary rnd) w) (cs @ [c])))"
    using len c(3) by (simp add: a int64_add_left add.assoc)
  have 7: "multiReader (snd (AddReader r n m)) = None" "boundary (snd (AddReader r n m)) = randomBoundary rnd"
    using rest by (simp_all add: a)
  show ?thesis
    unfolding built_def fst_conv snd_conv
    using 1 2 3 4 5 6 7 rest fr by blast
qed

lemma built_add_form:
  assumes b: "built rnd w cs (m, w')" and r: "r < nxt w" "readable_at (heap w) r"
    and fresh: "Some r \<notin> set (map source cs)"
    and c: "source c = Some r" "appended (randomBoundary rnd) w c = form @ content_at (heap w) r"
      "declared (randomBoundary rnd) w c = int (length form) + n"
  shows "built rnd w (cs @ [c]) (snd (add_form form r n (m, w')))"
proof -
  from b obtain xs where xs: "readers m = nxt w # xs @ [Suc (nxt w)]" "distinct xs"
    "\<forall>a \<in> set xs. (a < nxt w \<and> Some a \<in> set (map source cs)) \<or> (nxt w + 2 \<le> a \<and> a < nxt w')"
    "list_all (readable_at (heap w')) xs"
    "content_of (heap w') xs = concat (map (appended (randomBoundary rnd) w) cs)"
    unfolding built_def by auto
  from b have fr: "\<forall>a. a < nxt w \<longrightarrow> heap w' a = heap w a"
    and rest: "multiReader m = None" "boundary m = randomBoundary rnd" "nxt w + 2 \<le> nxt w'"
      "files w' = files w"
      "heap w' (nxt w) = Some (BytesBuffer [])"
      "heap w' (Suc (nxt w)) = Some (BytesReader (formClose (randomBoundary rnd)))"
    and len: "length_mr m = int64 (int (length (formClose (randomBoundary rnd)))
                   + sum_list (map (declared (randomBoundary rnd) w) cs))"
    unfolding built_def by auto
  define h2 where "h2 = (heap w')(nxt w' \<mapsto> BytesReader form)"
  define m2 where "m2 = m\<lparr>readers := nxt w # xs @ [nxt w', r, Suc (nxt w)],
               length_mr := int64 (length_mr m + int (length form) + n)\<rparr>"
  define w2 where "w2 = w'\<lparr>heap := h2, nxt := Suc (nxt w')\<rparr>"
  have a: "snd (add_form form r n (m, w')) = (m2, w2)"
    by (simp add: add_form_shape [OF xs(1)] m2_def w2_def h2_def)
  have hr: "heap w' r = heap w r" using fr r(1) by simp
  have rn: "r \<noteq> nxt w'" using r(1) rest(3) by simp
  have notin: "r \<notin> set xs" using xs(3) fresh r(1) by auto
  have hnotin: "nxt w' \<notin> set xs" using xs(3) rest(3) by auto
  have 1: "readers m2 = nxt w # (xs @ [nxt w', r]) @ [Suc (nxt w)]"
    by (simp add: m2_def)
  have 2: "distinct (xs @ [nxt w', r])" using xs(2) notin hnotin rn by simp
  have 3: "\<forall>a \<in> set (xs @ [nxt w', r]). (a < nxt w \<and> Some a \<in> set (map source (cs @ [c])))
                             \<or> (nxt w + 2 \<le> a \<and> a < nxt w2)"
    using xs(3) r(1) c(1) rest(3) by (auto simp: w2_def)
  have old: "list_all (readable_at h2) xs = list_all (readable_at (heap w')) xs"
    "content_of h2 xs = content_of (heap w') xs"
    using hnotin unfolding h2_def
    by (induction xs) (auto simp: readable_at_def content_of_def content_at_def)
  have 4: "list_all (readable_at (heap w2)) (xs @ [nxt w', r])"
    using xs(4) r(2) hr rn old(1) by (simp add: w2_def) (simp add: h2_def readable_at_def)
  have 5: "content_of (heap w2) (xs @ [nxt w', r])
      = concat (map (appended (randomBoundary rnd) w) (cs @ [c]))"
    using xs(5) hr c(2) rn old(2)
    by (simp add: w2_def content_of_append) (simp add: h2_def content_of_def content_at_def)
  have 6: "length_mr m2
      = int64 (int (length (formClose (randomBoundary rnd)))
                   + sum_list (map (declared (randomBoundary rnd) w) (cs @ [c])))"
    using len c(3) by (simp add: m2_def int64_add_left add.assoc)
  have 7: "multiReader m2 = None" "boundary m2 = randomBoundary rnd"
    using rest by (simp_all add: m2_def)
  have 8: "nxt w + 2 \<le> nxt w2" "files w2 = files w" "\<forall>a. a < nxt w \<longrightarrow> heap w2 a = heap w a"
    "heap w2 (nxt w) = Some (BytesBuffer [])"
    "heap w2 (Suc (nxt w)) = Some (BytesReader (formClose (randomBoundary rnd)))"
    using rest fr by (auto simp: w2_def h2_def)
  show ?thesis
    unfolding a built_def fst_conv snd_conv
    using 1 2 3 4 5 6 7 8 by blast
qed

lemma built_exec:
  assumes b: "built rnd w cs s" and ok: "append_ok w c" and fresh: "source c \<notin> set (map source cs)"
  shows "built rnd w (cs @ [c]) (exec c s)"
proof -
  obtain m w' where s: "s = (m, w')" by (cases s)
  from b s have bm: "boundary m = randomBoundary rnd" and fr: "\<forall>a. a < nxt w \<longrightarrow> heap w' a = heap w a"
    unfolding built_def by auto
  show ?thesis
  proof (cases c)
    case (AddReaderC r n)
    with ok fresh have "r < nxt w" "readable_at (heap w) r" "Some r \<notin> set (map source cs)" by auto
    from built_AddReader [OF b [unfolded s] this, of c n] AddReaderC s
    show ?thesis by simp
  next
    case (AddFormReaderC name filename n r)
    with ok fresh have "r < nxt w" "readable_at (heap w) r" "Some r \<notin> set (map source cs)" by auto
    from built_add_form [OF b [unfolded s] this, of c "form_header (randomBoundary rnd) name filename" n]
      AddFormReaderC s bm
    show ?thesis by (simp add: AddFormReader_def)
  next
    case (AddFileC f)
    with ok obtain name content pos where
      f: "f < nxt w" "heap w f = Some (OsFile name content pos False)"
      by (auto split: option.splits reader.splits)
    then have hf: "heap w' f = Some (OsFile name content pos False)" using fr by simp
    have st: "file_Stat f w' = Inr (basename name, int (length content))"
      by (simp add: file_Stat_def hf)
    have nm: "file_Name f w = name" by (simp add: file_Name_def f)
    have rd: "readable_at (heap w) f" by (simp add: readable_at_def f)
    have fs: "Some f \<notin> set (map source cs)" using fresh AddFileC by simp
    have ca: "content_at (heap w) f = drop pos content" by (simp add: content_at_def f)
    from built_add_form [OF b [unfolded s] f(1) rd fs, of c
        "form_header (randomBoundary rnd) ''file'' (basename name)" "int (length content)"]
      AddFileC nm f(2)
    have "built rnd w (cs @ [c])
        (snd (add_form (form_header (randomBoundary rnd) ''file'' (basename name)) f
                (int (length content)) (m, w')))"
      by simp
    with AddFileC s st bm show ?thesis by (simp add: AddFile_def)
  qed (use ok in simp_all)
qed

lemma built_run:
  "list_all (append_ok w) cs \<Longrightarrow> distinct (map source cs) \<Longrightarrow> built rnd w cs (run cs (New rnd w))"
proof (induction cs rule: rev_induct)
  case Nil
  show ?case by (simp add: run_def built_New)
next
  case (snoc c cs)
  then have "built rnd w cs (run cs (New rnd w))" "append_ok w c" "source c \<notin> set (map source cs)"
    by auto
  from built_exec [OF this] show ?case by (simp add: run_snoc)
qed

lemma built_stream:
  assumes "built rnd w cs s"
  shows "stream_ok s"
    and "stream_of s = concat (map (appended (randomBoundary rnd) w) cs) @ formClose (randomBoundary rnd)"
proof -
  from assms obtain xs where xs: "readers (fst s) = nxt w # xs @ [Suc (nxt w)]" "distinct xs"
    "\<forall>a \<in> set xs. (a < nxt w \<and> Some a \<in> set (map source cs)) \<or> (nxt w + 2 \<le> a \<and> a < nxt (snd s))"
    "list_all (readable_at (heap (snd s))) xs"
    "content_of (heap (snd s)) xs = concat (map (appended (randomBoundary rnd) w) cs)"
    unfolding built_def by auto
  from assms have rest: "multiReader (fst s) = None"
      "heap (snd s) (nxt w) = Some (BytesBuffer [])"
      "heap (snd s) (Suc (nxt w)) = Some (BytesReader (formClose (randomBoundary rnd)))"
    unfolding built_def by auto
  have p: "pending (fst s) = nxt w # xs @ [Suc (nxt w)]"
    by (simp add: pending_def rest(1) xs(1))
  have n: "nxt w \<notin> set xs" "Suc (nxt w) \<notin> set xs" using xs(3) by auto
  show "stream_ok s"
    unfolding stream_ok_def p good_def
    using xs(2,4) n rest(2,3) by (simp add: readable_at_def)
  show "stream_of s = concat (map (appended (randomBoundary rnd) w) cs) @ formClose (randomBoundary rnd)"
    unfolding stream_of_def p
    using xs(5) rest(2,3)
    by (simp add: content_of_Cons content_of_append content_of_single content_at_def)
      (simp add: content_of_def)
qed

lemma declared_sum:
  "list_all (append_ok w) cs \<Longrightarrow> list_all (declared_right w) cs \<Longrightarrow>
     sum_list (map (declared b w) cs) = int (length (concat (map (appended b w) cs)))"
proof (induction cs)
  case Nil
  show ?case by simp
next
  case (Cons c cs)
  then have ih: "sum_list (map (declared b w) cs) = int (length (concat (map (appended b w) cs)))"
    by simp
  from Cons.prems have "declared b w c = int (length (appended b w c))"
    by (cases c) (auto simp: content_at_def split: option.splits reader.splits)
  with ih show ?case by simp
qed

lemma example_lengths:
  "length CRLF = 2" "length (formClose ''01'') = 10" "length (form_header ''01'' ''n'' ''f'') = 64"
  by (simp_all add: CRLF_def formClose_def form_header_def DQUOTE_def)

lemma example_boundary: "randomBoundary [CHR 0x01] = ''01''"
  by (simp add: randomBoundary_def hex_byte_def hexdigit_def)

lemma example_content:
  "content_at (heap example_world) 0 = ''abc''" "content_at (heap example_world) (Suc 0) = ''de''"
  "nxt example_world = 2"
  "readable_at (heap example_world) 0" "readable_at (heap example_world) (Suc 0)"
  by (simp_all add: example_world_def content_at_def readable_at_def)

text \<open>
  C1 (as amended): after \<^verbatim>\<open>New\<close>, for every sequence of appends with \<^verbatim>\<open>AddReader\<close>,
  \<^verbatim>\<open>AddFormReader\<close> and \<^verbatim>\<open>AddFile\<close> whose sources are different objects that exist and can
  be read, repeated calls of \<^verbatim>\<open>Read\<close> with a non-empty buffer deliver the bytes of the
  appends in their order (for a form part the header, then the source), then the closing
  line, and then \<^verbatim>\<open>io.EOF\<close>.
\<close>

theorem appended_sources_stream:
  "list_all (append_ok w) cs \<and> distinct (map source cs) \<and> 0 < k
     \<and> length (concat (map (appended (Boundary (fst (New rnd w))) w) cs)
               @ formClose (Boundary (fst (New rnd w)))) < fuel \<longrightarrow>
   map_option fst (drain Read fuel k (run cs (New rnd w)))
     = Some (concat (map (appended (Boundary (fst (New rnd w))) w) cs)
             @ formClose (Boundary (fst (New rnd w))), EOF)"
proof
  assume h: "list_all (append_ok w) cs \<and> distinct (map source cs) \<and> 0 < k
     \<and> length (concat (map (appended (Boundary (fst (New rnd w))) w) cs)
               @ formClose (Boundary (fst (New rnd w)))) < fuel"
  have b: "Boundary (fst (New rnd w)) = randomBoundary rnd"
    by (simp add: Boundary_def New_fields)
  from h have bu: "built rnd w cs (run cs (New rnd w))" by (simp add: built_run)
  note st = built_stream [OF bu]
  from h have "length (stream_of (run cs (New rnd w))) < fuel" by (simp add: st(2) b)
  from drain_Read_output [OF _ st(1) this, of k] h
  show "map_option fst (drain Read fuel k (run cs (New rnd w)))
     = Some (concat (map (appended (Boundary (fst (New rnd w))) w) cs)
             @ formClose (Boundary (fst (New rnd w))), EOF)"
    by (simp add: st(2) b)
qed

theorem appended_sources_stream_witness:
  "map_option fst (drain Read 100 4
      (run [AddReaderC 0 3, AddFormReaderC ''n'' ''f'' 2 1] (New [CHR 0x01] example_world)))
     = Some (''abc'' @ form_header ''01'' ''n'' ''f'' @ ''de'' @ CRLF @ ''--01--'' @ CRLF, EOF)"
proof -
  have b: "Boundary (fst (New [CHR 0x01] example_world)) = ''01''"
    by (simp add: Boundary_def New_fields example_boundary)
  have pre: "list_all (append_ok example_world) [AddReaderC 0 3, AddFormReaderC ''n'' ''f'' 2 1]
     \<and> distinct (map source [AddReaderC 0 3, AddFormReaderC ''n'' ''f'' 2 1]) \<and> (0::nat) < 4
     \<and> length (concat (map (appended (Boundary (fst (New [CHR 0x01] example_world))) example_world)
                 [AddReaderC 0 3, AddFormReaderC ''n'' ''f'' 2 1])
               @ formClose (Boundary (fst (New [CHR 0x01] example_world)))) < 100"
    by (simp add: b example_content example_lengths)
  from appended_sources_stream [where w = example_world and rnd = "[CHR 0x01]" and k = 4
      and fuel = 100 and cs = "[AddReaderC 0 3, AddFormReaderC ''n'' ''f'' 2 1]"] pre
  show ?thesis by (simp add: b example_content formClose_def)
qed

lemma example_closed_by_caller:
  "map_option fst (drain Read 2 100
      (run [AddReaderC 2 5] (New [CHR 0x01] (os_Close 2 example_world_open))))
     = Some ([], ErrClosed ''a.txt'')"
  by (simp add: run_def New_def NewWriter_def alloc_def Let_def os_Close_def
      example_world_open_def example_world_def AddReader_def eval_nat_numeral Read_def
      GetMultiReader_def)

text \<open>
  C1 as stated speaks of every sequence of appended readers. A reader appended twice is
  one object: its bytes come once. A file handle the caller has closed before the stream
  is read gives an error in place of its bytes.
\<close>

theorem appended_twice_counterexample:
  "content_at (heap example_world) 0 = ''abc''
   \<and> readers (fst (run [AddReaderC 0 3, AddReaderC 0 3] (New [CHR 0x01] example_world))) = [2, 0, 0, 3]
   \<and> map_option fst (drain Read 3 100
        (run [AddReaderC 0 3, AddReaderC 0 3] (New [CHR 0x01] example_world)))
      = Some (''abc'' @ CRLF @ ''--01--'' @ CRLF, EOF)
   \<and> map_option fst (drain Read 3 100
        (run [AddReaderC 0 3, AddReaderC 0 3] (New [CHR 0x01] example_world)))
      \<noteq> Some (''abc'' @ ''abc'' @ CRLF @ ''--01--'' @ CRLF, EOF)
   \<and> map_option fst (drain Read 2 100
        (run [AddReaderC 2 5] (New [CHR 0x01] (os_Close 2 example_world_open))))
      = Some ([], ErrClosed ''a.txt'')"
proof -
  have s: "run [AddReaderC 0 3, AddReaderC 0 3] (New [CHR 0x01] example_world) =
     (\<lparr>contentType = ''multipart/form-data; boundary=01'', boundary = ''01'',
       writer = Some \<lparr>target = 2, wboundary = ''01'', lastpart = False\<rparr>,
       readers = [2, 0, 0, 3], length_mr = 16, multiReader = None, count = 0\<rparr>,
      \<lparr>heap = (\<lambda>a. None)(0 \<mapsto> BytesReader ''abc'', 1 \<mapsto> BytesReader ''de'',
                2 \<mapsto> BytesBuffer [], 3 \<mapsto> BytesReader (CRLF @ ''--01--'' @ CRLF)),
       nxt = 4, files = (\<lambda>p. None)(''a.txt'' \<mapsto> ''hello'')\<rparr>)"
    using run_snoc [of "[AddReaderC 0 3]" "AddReaderC 0 3" "New [CHR 0x01] example_world"]
    by (simp add: example_appended AddReader_def int64_def)
  have d: "map_option fst (drain Read 3 100
        (run [AddReaderC 0 3, AddReaderC 0 3] (New [CHR 0x01] example_world)))
      = Some (''abc'' @ CRLF @ ''--01--'' @ CRLF, EOF)"
    by (simp add: s eval_nat_numeral Read_def GetMultiReader_def Let_def CRLF_def)
  have n: "map_option fst (drain Read 3 100
        (run [AddReaderC 0 3, AddReaderC 0 3] (New [CHR 0x01] example_world)))
      \<noteq> Some (''abc'' @ ''abc'' @ CRLF @ ''--01--'' @ CRLF, EOF)"
    unfolding d by (simp add: CRLF_def)
  have r: "readers (fst (run [AddReaderC 0 3, AddReaderC 0 3] (New [CHR 0x01] example_world))) = [2, 0, 0, 3]"
    by (simp add: s)
  from d n r example_content(1) example_closed_by_caller show ?thesis by blast
qed

section \<open>The length handed to the request\<close>

text \<open>
  C4 (as amended), for an assembler made by \<^verbatim>\<open>New\<close> and then given only calls of
  \<^verbatim>\<open>AddReader\<close>, \<^verbatim>\<open>AddFormReader\<close> and \<^verbatim>\<open>AddFile\<close>, each on a readable source that no
  other call appends: every such call declares a number as its length, and the stored
  total is the \<^verbatim>\<open>int64\<close> sum of the length of the closing line and the declared lengths
  (a form part declaring its header too). \<^verbatim>\<open>SetupRequest\<close> on a request whose header map
  is nil panics and leaves \<^verbatim>\<open>ContentLength\<close> as it was; on a request whose header map is
  not nil it returns and sets \<^verbatim>\<open>ContentLength\<close> to the stored total. When moreover every
  declared length is the number of bytes its source holds (and the total is below
  \<open>2^63\<close>), \<^verbatim>\<open>ContentLength\<close> is the number of bytes the request body delivers.
\<close>

theorem ContentLength_is_the_declared_total:
  "(Header req = None \<longrightarrow>
      fst (SetupRequest req (fst (run cs (New rnd w)))) = Some PanicNilMap
      \<and> ContentLength (fst (snd (SetupRequest req (fst (run cs (New rnd w)))))) = ContentLength req)
   \<and> (Header req \<noteq> None \<and> list_all (append_ok w) cs \<and> distinct (map source cs) \<longrightarrow>
      fst (SetupRequest req (fst (run cs (New rnd w)))) = None
      \<and> ContentLength (fst (snd (SetupRequest req (fst (run cs (New rnd w))))))
         = int64 (int (length (formClose (Boundary (fst (New rnd w)))))
                  + sum_list (map (declared (Boundary (fst (New rnd w))) w) cs))
      \<and> (list_all (declared_right w) cs \<and> 0 < k
          \<and> length (stream_of (run cs (New rnd w))) < fuel
          \<and> int (length (stream_of (run cs (New rnd w)))) < 2 ^ 63 \<longrightarrow>
          ContentLength (fst (snd (SetupRequest req (fst (run cs (New rnd w))))))
            = int (length (stream_of (run cs (New rnd w))))
          \<and> map_option fst (drain Body_Read fuel k
                (snd (snd (SetupRequest req (fst (run cs (New rnd w))))), snd (run cs (New rnd w))))
            = Some (stream_of (run cs (New rnd w)), EOF)))"
proof -
  define s where "s = run cs (New rnd w)"
  define b where "b = randomBoundary rnd"
  have bb: "Boundary (fst (New rnd w)) = b"
    by (simp add: Boundary_def New_fields b_def)
  have nil: "Header req = None \<longrightarrow>
      fst (SetupRequest req (fst s)) = Some PanicNilMap
      \<and> ContentLength (fst (snd (SetupRequest req (fst s)))) = ContentLength req"
    using SetupRequest_nil_Header [of req "fst s"] by blast
  have main: "Header req \<noteq> None \<and> list_all (append_ok w) cs \<and> distinct (map source cs) \<longrightarrow>
      fst (SetupRequest req (fst s)) = None
      \<and> ContentLength (fst (snd (SetupRequest req (fst s))))
         = int64 (int (length (formClose b)) + sum_list (map (declared b w) cs))
      \<and> (list_all (declared_right w) cs \<and> 0 < k \<and> length (stream_of s) < fuel
          \<and> int (length (stream_of s)) < 2 ^ 63 \<longrightarrow>
          ContentLength (fst (snd (SetupRequest req (fst s)))) = int (length (stream_of s))
          \<and> map_option fst (drain Body_Read fuel k (snd (snd (SetupRequest req (fst s))), snd s))
            = Some (stream_of s, EOF))"
  proof
    assume h: "Header req \<noteq> None \<and> list_all (append_ok w) cs \<and> distinct (map source cs)"
    then have hd: "Header req \<noteq> None" by simp
    from h have bu: "built rnd w cs s" by (simp add: built_run s_def)
    then have len: "length_mr (fst s) = int64 (int (length (formClose b)) + sum_list (map (declared b w) cs))"
      unfolding built_def b_def by blast
    note st = built_stream [OF bu, folded b_def]
    note sc = SetupRequest_ContentLength [OF hd, of "fst s"]
    from sc have er: "fst (SetupRequest req (fst s)) = None" by simp
    from sc len have cl: "ContentLength (fst (snd (SetupRequest req (fst s))))
         = int64 (int (length (formClose b)) + sum_list (map (declared b w) cs))"
      by simp
    have 2: "list_all (declared_right w) cs \<and> 0 < k \<and> length (stream_of s) < fuel
          \<and> int (length (stream_of s)) < 2 ^ 63 \<longrightarrow>
          ContentLength (fst (snd (SetupRequest req (fst s)))) = int (length (stream_of s))
          \<and> map_option fst (drain Body_Read fuel k (snd (snd (SetupRequest req (fst s))), snd s))
            = Some (stream_of s, EOF)"
    proof
      assume g: "list_all (declared_right w) cs \<and> 0 < k \<and> length (stream_of s) < fuel
          \<and> int (length (stream_of s)) < 2 ^ 63"
      from h g have "sum_list (map (declared b w) cs) = int (length (concat (map (appended b w) cs)))"
        by (simp add: declared_sum)
      then have "int (length (formClose b)) + sum_list (map (declared b w) cs) = int (length (stream_of s))"
        by (simp add: st(2))
      moreover from g have "int64 (int (length (stream_of s))) = int (length (stream_of s))"
        by (intro int64_id) auto
      ultimately have "ContentLength (fst (snd (SetupRequest req (fst s)))) = int (length (stream_of s))"
        using cl by simp
      moreover from g have "map_option fst (drain Body_Read fuel k (snd (snd (SetupRequest req (fst s))), snd s))
            = Some (stream_of s, EOF)"
        by (simp add: SetupRequest_body [OF st(1)])
      ultimately show "ContentLength (fst (snd (SetupRequest req (fst s)))) = int (length (stream_of s))
          \<and> map_option fst (drain Body_Read fuel k (snd (snd (SetupRequest req (fst s))), snd s))
            = Some (stream_of s, EOF)" by simp
    qed
    from er cl 2 show "fst (SetupRequest req (fst s)) = None
      \<and> ContentLength (fst (snd (SetupRequest req (fst s))))
         = int64 (int (length (formClose b)) + sum_list (map (declared b w) cs))
      \<and> (list_all (declared_right w) cs \<and> 0 < k \<and> length (stream_of s) < fuel
          \<and> int (length (stream_of s)) < 2 ^ 63 \<longrightarrow>
          ContentLength (fst (snd (SetupRequest req (fst s)))) = int (length (stream_of s))
          \<and> map_option fst (drain Body_Read fuel k (snd (snd (SetupRequest req (fst s))), snd s))
            = Some (stream_of s, EOF))" by blast
  qed
  from nil main show ?thesis unfolding bb s_def [symmetric] by blast
qed

lemma example_two_appends_stream:
  "stream_ok (run [AddReaderC 0 3, AddFormReaderC ''n'' ''f'' 2 1] (New [CHR 0x01] example_world))"
  "stream_of (run [AddReaderC 0 3, AddFormReaderC ''n'' ''f'' 2 1] (New [CHR 0x01] example_world))
     = ''abc'' @ form_header ''01'' ''n'' ''f'' @ ''de'' @ CRLF @ ''--01--'' @ CRLF"
proof -
  have "built [CHR 0x01] example_world [AddReaderC 0 3, AddFormReaderC ''n'' ''f'' 2 1]
      (run [AddReaderC 0 3, AddFormReaderC ''n'' ''f'' 2 1] (New [CHR 0x01] example_world))"
    by (rule built_run) (simp_all add: example_content)
  from built_stream [OF this]
  show "stream_ok (run [AddReaderC 0 3, AddFormReaderC ''n'' ''f'' 2 1] (New [CHR 0x01] example_world))"
    "stream_of (run [AddReaderC 0 3, AddFormReaderC ''n'' ''f'' 2 1] (New [CHR 0x01] example_world))
     = ''abc'' @ form_header ''01'' ''n'' ''f'' @ ''de'' @ CRLF @ ''--01--'' @ CRLF"
    by (simp_all add: example_boundary example_content formClose_def)
qed

theorem ContentLength_is_the_declared_total_witness:
  "fst (SetupRequest \<lparr>Body = None, Header = Some [], ContentLength = 0\<rparr>
       (fst (run [AddReaderC 0 3, AddFormReaderC ''n'' ''f'' 2 1] (New [CHR 0x01] example_world))))
     = None
   \<and> ContentLength (fst (snd (SetupRequest \<lparr>Body = None, Header = Some [], ContentLength = 0\<rparr>
       (fst (run [AddReaderC 0 3, AddFormReaderC ''n'' ''f'' 2 1] (New [CHR 0x01] example_world))))))
     = 79
   \<and> map_option fst (drain Body_Read 100 4
       (snd (snd (SetupRequest \<lparr>Body = None, Header = Some [], ContentLength = 0\<rparr>
          (fst (run [AddReaderC 0 3, AddFormReaderC ''n'' ''f'' 2 1] (New [CHR 0x01] example_world))))),
        snd (run [AddReaderC 0 3, AddFormReaderC ''n'' ''f'' 2 1] (New [CHR 0x01] example_world))))
     = Some (''abc'' @ form_header ''01'' ''n'' ''f'' @ ''de'' @ CRLF @ ''--01--'' @ CRLF, EOF)
   \<and> length (''abc'' @ form_header ''01'' ''n'' ''f'' @ ''de'' @ CRLF @ ''--01--'' @ CRLF) = 79
   \<and> fst (SetupRequest \<lparr>Body = None, Header = None, ContentLength = 7\<rparr>
       (fst (run [AddReaderC 0 3, AddFormReaderC ''n'' ''f'' 2 1] (New [CHR 0x01] example_world))))
     = Some PanicNilMap
   \<and> ContentLength (fst (snd (SetupRequest \<lparr>Body = None, Header = None, ContentLength = 7\<rparr>
       (fst (run [AddReaderC 0 3, AddFormReaderC ''n'' ''f'' 2 1] (New [CHR 0x01] example_world))))))
     = 7"
proof -
  define cs where "cs = [AddReaderC 0 3, AddFormReaderC ''n'' ''f'' 2 1]"
  define req where "req = \<lparr>Body = None, Header = Some [], ContentLength = 0\<rparr>"
  define req0 where "req0 = \<lparr>Body = None, Header = None, ContentLength = 7\<rparr>"
  note st = example_two_appends_stream [folded cs_def]
  have l: "length (''abc'' @ form_header ''01'' ''n'' ''f'' @ ''de'' @ CRLF @ ''--01--'' @ CRLF) = 79"
    by (simp add: example_lengths)
  have pre1: "Header req \<noteq> None \<and> list_all (append_ok example_world) cs \<and> distinct (map source cs)"
    by (simp add: cs_def req_def example_content)
  have pre2: "list_all (declared_right example_world) cs \<and> (0::nat) < 4
          \<and> length (stream_of (run cs (New [CHR 0x01] example_world))) < 100
          \<and> int (length (stream_of (run cs (New [CHR 0x01] example_world)))) < 2 ^ 63"
    unfolding st(2) l by (simp add: cs_def example_content)
  have pre0: "Header req0 = None" by (simp add: req0_def)
  from ContentLength_is_the_declared_total [where w = example_world and cs = cs and rnd = "[CHR 0x01]"
      and req = req and k = 4 and fuel = 100] pre1 pre2
  have a: "fst (SetupRequest req (fst (run cs (New [CHR 0x01] example_world)))) = None"
    "ContentLength (fst (snd (SetupRequest req (fst (run cs (New [CHR 0x01] example_world))))))
            = int (length (stream_of (run cs (New [CHR 0x01] example_world))))"
    "map_option fst (drain Body_Read 100 4
                (snd (snd (SetupRequest req (fst (run cs (New [CHR 0x01] example_world))))),
                 snd (run cs (New [CHR 0x01] example_world))))
            = Some (stream_of (run cs (New [CHR 0x01] example_world)), EOF)"
    by blast+
  from ContentLength_is_the_declared_total [where w = example_world and cs = cs and rnd = "[CHR 0x01]"
      and req = req0 and k = 4 and fuel = 100] pre0
  have b: "fst (SetupRequest req0 (fst (run cs (New [CHR 0x01] example_world)))) = Some PanicNilMap"
    "ContentLength (fst (snd (SetupRequest req0 (fst (run cs (New [CHR 0x01] example_world)))))) = ContentLength req0"
    by blast+
  have c: "ContentLength req0 = 7" by (simp add: req0_def)
  note a' = a [unfolded st(2) l, unfolded cs_def req_def]
  note b' = b [unfolded c, unfolded cs_def req0_def]
  from a' b' l show ?thesis by simp
qed

text \<open>
  C4 as stated wants no numeric \<^verbatim>\<open>ContentLength\<close> below the payload. A source of three
  bytes appended with the length 0 gives \<^verbatim>\<open>ContentLength\<close> 10 for a body of 13 bytes.
\<close>

theorem ContentLength_undercounts_counterexample:
  "content_at (heap example_world) 0 = ''abc''
   \<and> ContentLength (fst (snd (SetupRequest \<lparr>Body = None, Header = Some [], ContentLength = 0\<rparr>
       (fst (run [AddReaderC 0 0] (New [CHR 0x01] example_world)))))) = 10
   \<and> map_option fst (drain Body_Read 14 4
       (snd (snd (SetupRequest \<lparr>Body = None, Header = Some [], ContentLength = 0\<rparr>
          (fst (run [AddReaderC 0 0] (New [CHR 0x01] example_world))))),
        snd (run [AddReaderC 0 0] (New [CHR 0x01] example_world))))
     = Some (''abc'' @ CRLF @ ''--01--'' @ CRLF, EOF)
   \<and> length (''abc'' @ CRLF @ ''--01--'' @ CRLF) = 13"
proof -
  define s where "s = run [AddReaderC 0 0] (New [CHR 0x01] example_world)"
  have bu: "built [CHR 0x01] example_world [AddReaderC 0 0] s"
    unfolding s_def by (rule built_run) (simp_all add: example_content)
  note st = built_stream [OF bu]
  have so: "stream_of s = ''abc'' @ CRLF @ ''--01--'' @ CRLF"
    by (simp add: st(2) example_boundary example_content formClose_def)
  have l: "length (''abc'' @ CRLF @ ''--01--'' @ CRLF) = 13" by (simp add: example_lengths)
  from bu have "length_mr (fst s) = int64 (int (length (formClose ''01'')) + 0)"
    unfolding built_def by (simp add: example_boundary)
  then have cl: "ContentLength (fst (snd (SetupRequest \<lparr>Body = None, Header = Some [], ContentLength = 0\<rparr> (fst s)))) = 10"
    using SetupRequest_ContentLength [of "\<lparr>Body = None, Header = Some [], ContentLength = 0\<rparr>" "fst s"]
    by (simp add: example_lengths int64_def)
  have "length (stream_of s) < 14" unfolding so l by simp
  from SetupRequest_body [OF st(1) _ this, of 4 "\<lparr>Body = None, Header = Some [], ContentLength = 0\<rparr>"]
  have d: "map_option fst (drain Body_Read 14 4
       (snd (snd (SetupRequest \<lparr>Body = None, Header = Some [], ContentLength = 0\<rparr> (fst s))), snd s))
     = Some (''abc'' @ CRLF @ ''--01--'' @ CRLF, EOF)"
    by (simp add: so)
  from cl d l example_content(1) show ?thesis unfolding s_def by blast
qed

end
